theory Spec2Isabelle
  imports Complex_Main "HOL-Library.Word"
begin

section \<open>Go strings and the standard-library functions the code calls\<close>

text \<open>
  A Go \<open>string\<close> is a sequence of bytes, so it is modelled by \<^typ>\<open>string\<close> (a list of
  8-bit characters): \<open>len\<close> is \<^const>\<open>length\<close> and \<open>==\<close> is equality of byte lists.
  Go's \<open>int\<close> is modelled by \<^typ>\<open>int\<close>; the one place where a width matters, the
  conversion \<open>rune(row)\<close> to a 32-bit integer, has its wrap-around written out.
\<close>

definition byte :: "char \<Rightarrow> nat" where
  "byte c = of_char c"

definition RuneSelf :: nat where
  "RuneSelf = 128"

text \<open>\<open>rune(n)\<close> for an \<open>int\<close> \<open>n\<close>: conversion to \<open>int32\<close> keeps the low 32 bits, signed.\<close>

definition rune :: "int \<Rightarrow> int" where
  "rune n = (n + 2147483648) mod 4294967296 - 2147483648"

text \<open>
  \<open>string(r)\<close> for a rune \<open>r\<close>: the UTF-8 encoding of the code point; a value that is not
  a valid code point (negative, above \<open>0x10FFFF\<close>, or a surrogate half) is converted to
  the replacement character U+FFFD, the bytes \<open>EF BF BD\<close>.
\<close>

definition utf8_bytes :: "int \<Rightarrow> string" where
  "utf8_bytes r =
     (if r < 128 then [char_of r]
      else if r < 2048 then [char_of (192 + r div 64), char_of (128 + r mod 64)]
      else if r < 65536 then
        [char_of (224 + r div 4096), char_of (128 + (r div 64) mod 64), char_of (128 + r mod 64)]
      else
        [char_of (240 + r div 262144), char_of (128 + (r div 4096) mod 64),
         char_of (128 + (r div 64) mod 64), char_of (128 + r mod 64)])"

definition valid_code_point :: "int \<Rightarrow> bool" where
  "valid_code_point r = (0 \<le> r \<and> r \<le> 1114111 \<and> \<not> (55296 \<le> r \<and> r \<le> 57343))"

definition RuneError :: int where
  "RuneError = 65533"

definition string_of_rune :: "int \<Rightarrow> string" where
  "string_of_rune r = (if valid_code_point r then utf8_bytes r else utf8_bytes RuneError)"

text \<open>\<open>strconv.Itoa\<close>, the decimal representation, for comparison with the above.\<close>

fun digits :: "nat \<Rightarrow> string" where
  "digits n = (if n < 10 then [char_of (48 + n)] else digits (n div 10) @ [char_of (48 + n mod 10)])"

declare digits.simps [simp del]

definition Itoa :: "int \<Rightarrow> string" where
  "Itoa n = (if n < 0 then CHR ''-'' # digits (nat (- n)) else digits (nat n))"

text \<open>
  The functions of Go's standard library and of \<open>github.com/google/uuid\<close> that the code
  calls and whose sources are not part of the repository are parameters of the model.
  \<open>strings.ToLower\<close> and \<open>strings.TrimSpace\<close> are written out for ASCII input, where they
  need no Unicode table; their non-ASCII fall-backs are parameters.
  A parsed UUID is represented by its canonical text (what PostgreSQL's \<open>id::text\<close> yields),
  a point in time by an integer, with 0 for Go's zero \<open>time.Time\<close>; a parser returns
  \<open>None\<close> where the Go function returns an error.
\<close>

type_synonym uuid = string

type_synonym time = int

record golib =
  uuid_Parse :: "string \<Rightarrow> uuid option"
  time_Parse_RFC3339 :: "string \<Rightarrow> time option"
  Map_unicode_ToLower :: "string \<Rightarrow> string"
  TrimFunc_IsSpace :: "string \<Rightarrow> string"
  TrimRightFunc_IsSpace :: "string \<Rightarrow> string"
  range_runes :: "string \<Rightarrow> int list"
  unicode_IsSpace :: "int \<Rightarrow> bool"
  unicode_IsPunct :: "int \<Rightarrow> bool"
  json_Marshal :: "string list \<Rightarrow> string"

definition is_upper :: "char \<Rightarrow> bool" where
  "is_upper c = (65 \<le> byte c \<and> byte c \<le> 90)"

definition lower_byte :: "char \<Rightarrow> char" where
  "lower_byte c = (if is_upper c then char_of (byte c + 32) else c)"

text \<open>
  \<open>strings.ToLower\<close>: an all-ASCII string is lower-cased byte by byte; any other string is
  mapped rune by rune with \<open>unicode.ToLower\<close>.
\<close>

definition ToLower :: "('z golib_scheme) \<Rightarrow> string \<Rightarrow> string" where
  "ToLower L s =
     (if list_all (\<lambda>c. byte c < RuneSelf) s then map lower_byte s
      else Map_unicode_ToLower L s)"

definition asciiSpace :: "char \<Rightarrow> bool" where
  "asciiSpace c = (byte c \<in> {9, 10, 11, 12, 13, 32})"

text \<open>
  \<open>strings.TrimSpace\<close>: the scan from the left stops at the first byte that is not an ASCII
  space; if that byte is not ASCII the rest is handed to \<open>TrimFunc(s[start:], unicode.IsSpace)\<close>.
  The scan from the right does the same with \<open>TrimRightFunc\<close>.
\<close>

fun trim_right :: "('z golib_scheme) \<Rightarrow> string \<Rightarrow> string" where
  "trim_right L [] = []"
| "trim_right L (c # cs) =
     (if byte c \<ge> RuneSelf then TrimRightFunc_IsSpace L (rev (c # cs))
      else if asciiSpace c then trim_right L cs
      else rev (c # cs))"

fun trim_left :: "('z golib_scheme) \<Rightarrow> string \<Rightarrow> string" where
  "trim_left L [] = []"
| "trim_left L (c # cs) =
     (if byte c \<ge> RuneSelf then TrimFunc_IsSpace L (c # cs)
      else if asciiSpace c then trim_left L cs
      else trim_right L (rev (c # cs)))"

definition TrimSpace :: "('z golib_scheme) \<Rightarrow> string \<Rightarrow> string" where
  "TrimSpace L s = trim_left L s"

text \<open>\<open>strings.ReplaceAll(s, " ", "-")\<close> and \<open>strings.ReplaceAll(s, "--", "-")\<close>.\<close>

definition ReplaceAll_space_hyphen :: "string \<Rightarrow> string" where
  "ReplaceAll_space_hyphen s = map (\<lambda>c. if c = CHR '' '' then CHR ''-'' else c) s"

fun ReplaceAll_hyphens :: "string \<Rightarrow> string" where
  "ReplaceAll_hyphens (a # b # cs) =
     (if a = CHR ''-'' \<and> b = CHR ''-'' then CHR ''-'' # ReplaceAll_hyphens cs
      else a # ReplaceAll_hyphens (b # cs))"
| "ReplaceAll_hyphens cs = cs"

fun Contains_hyphens :: "string \<Rightarrow> bool" where
  "Contains_hyphens (a # b # cs) = ((a = CHR ''-'' \<and> b = CHR ''-'') \<or> Contains_hyphens (b # cs))"
| "Contains_hyphens cs = False"

section \<open>Regular expressions\<close>

text \<open>
  The two patterns of the validators are anchored at both ends (\<open>^...$\<close>), so
  \<open>MatchString\<close> holds exactly when the whole string is in the language of the pattern.
  All character classes are ASCII, so matching bytes and matching runes agree.  The
  matcher below works by derivatives; \<open>lang\<close> is the language it decides.
\<close>

datatype regex =
  Never
  | Empty
  | Class string
  | Seq regex regex
  | Alt regex regex
  | Star regex

definition Plus :: "regex \<Rightarrow> regex" where
  "Plus r = Seq r (Star r)"

fun nullable :: "regex \<Rightarrow> bool" where
  "nullable Never = False"
| "nullable Empty = True"
| "nullable (Class cs) = False"
| "nullable (Seq r s) = (nullable r \<and> nullable s)"
| "nullable (Alt r s) = (nullable r \<or> nullable s)"
| "nullable (Star r) = True"

fun deriv :: "char \<Rightarrow> regex \<Rightarrow> regex" where
  "deriv c Never = Never"
| "deriv c Empty = Never"
| "deriv c (Class cs) = (if c \<in> set cs then Empty else Never)"
| "deriv c (Seq r s) =
     (if nullable r then Alt (Seq (deriv c r) s) (deriv c s) else Seq (deriv c r) s)"
| "deriv c (Alt r s) = Alt (deriv c r) (deriv c s)"
| "deriv c (Star r) = Seq (deriv c r) (Star r)"

fun MatchString :: "regex \<Rightarrow> string \<Rightarrow> bool" where
  "MatchString r [] = nullable r"
| "MatchString r (c # cs) = MatchString (deriv c r) cs"

inductive_set iter :: "string set \<Rightarrow> string set" for A :: "string set" where
  iter_nil: "[] \<in> iter A"
| iter_app: "u \<in> A \<Longrightarrow> v \<in> iter A \<Longrightarrow> u @ v \<in> iter A"

fun lang :: "regex \<Rightarrow> string set" where
  "lang Never = {}"
| "lang Empty = {[]}"
| "lang (Class cs) = (\<lambda>c. [c]) ` set cs"
| "lang (Seq r s) = (\<lambda>(u, v). u @ v) ` (lang r \<times> lang s)"
| "lang (Alt r s) = lang r \<union> lang s"
| "lang (Star r) = iter (lang r)"

definition lower_alnum :: string where
  "lower_alnum = ''abcdefghijklmnopqrstuvwxyz0123456789''"



text \<open>\<open>^[a-z0-9]+(-[a-z0-9]+)*$\<close>\<close>

definition slugRegex :: regex where
  "slugRegex = Seq (Plus (Class lower_alnum)) (Star (Seq (Class ''-'') (Plus (Class lower_alnum))))"


section \<open>Import records and validation errors\<close>

record ValidationError =
  RowNumber :: int
  RecordIdentifier :: string
  FieldName :: string
  Code :: string
  Message :: string
  RawData :: string

definition NewValidationError :: "int \<Rightarrow> string \<Rightarrow> string \<Rightarrow> string \<Rightarrow> string \<Rightarrow> ValidationError" where
  "NewValidationError rowNumber recordID field code message =
     \<lparr>RowNumber = rowNumber, RecordIdentifier = recordID, FieldName = field,
      Code = code, Message = message, RawData = []\<rparr>"

definition ErrCodeInvalidUUID :: string where "ErrCodeInvalidUUID = ''INVALID_UUID''"
definition ErrCodeInvalidEmail :: string where "ErrCodeInvalidEmail = ''INVALID_EMAIL''"
definition ErrCodeInvalidName :: string where "ErrCodeInvalidName = ''INVALID_NAME''"
definition ErrCodeInvalidRole :: string where "ErrCodeInvalidRole = ''INVALID_ROLE''"
definition ErrCodeInvalidBoolean :: string where "ErrCodeInvalidBoolean = ''INVALID_BOOLEAN''"
definition ErrCodeInvalidTimestamp :: string where "ErrCodeInvalidTimestamp = ''INVALID_TIMESTAMP''"
definition ErrCodeMissingField :: string where "ErrCodeMissingField = ''MISSING_FIELD''"
definition ErrCodeInvalidSlug :: string where "ErrCodeInvalidSlug = ''INVALID_SLUG''"
definition ErrCodeInvalidTitle :: string where "ErrCodeInvalidTitle = ''INVALID_TITLE''"
definition ErrCodeInvalidAuthor :: string where "ErrCodeInvalidAuthor = ''INVALID_AUTHOR''"
definition ErrCodeInvalidTags :: string where "ErrCodeInvalidTags = ''INVALID_TAGS''"
definition ErrCodeInvalidStatus :: string where "ErrCodeInvalidStatus = ''INVALID_STATUS''"
definition ErrCodeDraftWithPublished :: string where "ErrCodeDraftWithPublished = ''INVALID_PUBLISHED_AT''"
definition ErrCodeMissingPublishedAt :: string where "ErrCodeMissingPublishedAt = ''MISSING_PUBLISHED_AT''"
definition ErrCodeInvalidArticle :: string where "ErrCodeInvalidArticle = ''INVALID_ARTICLE''"
definition ErrCodeInvalidUser :: string where "ErrCodeInvalidUser = ''INVALID_USER''"
definition ErrCodeBodyTooLong :: string where "ErrCodeBodyTooLong = ''BODY_TOO_LONG''"
definition ErrCodeBodyEmpty :: string where "ErrCodeBodyEmpty = ''BODY_EMPTY''"
definition ErrCodeFileParseError :: string where "ErrCodeFileParseError = ''FILE_PARSE_ERROR''"


record ArticleImport =
  ai_ID :: string
  ai_Slug :: string
  ai_Title :: string
  ai_Body :: string
  ai_AuthorID :: string
  ai_Tags :: "string list option"
  ai_PublishedAt :: string
  ai_Status :: string

record CommentImport =
  ci_ID :: string
  ci_ArticleID :: string
  ci_UserID :: string
  ci_Body :: string
  ci_CreatedAt :: string


definition AllowedArticleStatuses :: "string \<Rightarrow> bool" where
  "AllowedArticleStatuses k = (k \<in> set [''draft'', ''published'', ''archived''])"

definition MaxCommentWords :: nat where
  "MaxCommentWords = 500"

section \<open>Validators\<close>


definition IsValidSlug :: "string \<Rightarrow> bool" where
  "IsValidSlug slug = (if slug = [] then False else MatchString slugRegex slug)"

definition ValidateArticleImport :: "('z golib_scheme) \<Rightarrow> int \<Rightarrow> ArticleImport \<Rightarrow> ValidationError list" where
  "ValidateArticleImport L row article =
     (let identifier = (if ai_Slug article = [] \<and> ai_ID article \<noteq> [] then ai_ID article
                        else ai_Slug article);
          err = NewValidationError row identifier;
          status = ToLower L (ai_Status article)
      in (if ai_ID article \<noteq> [] \<and> uuid_Parse L (ai_ID article) = None
          then [err ''id'' ErrCodeInvalidUUID ''Invalid UUID format''] else [])
       @ (if ai_Slug article = [] then [err ''slug'' ErrCodeMissingField ''Slug is required'']
          else if \<not> IsValidSlug (ai_Slug article)
          then [err ''slug'' ErrCodeInvalidSlug
                  ''Slug must be in kebab-case format (lowercase letters, numbers, and hyphens only)'']
          else if length (ai_Slug article) > 255
          then [err ''slug'' ErrCodeInvalidSlug ''Slug must be at most 255 characters''] else [])
       @ (if ai_Title article = [] then [err ''title'' ErrCodeMissingField ''Title is required'']
          else if length (ai_Title article) > 500
          then [err ''title'' ErrCodeInvalidTitle ''Title must be at most 500 characters''] else [])
       @ (if ai_Body article = [] then [err ''body'' ErrCodeMissingField ''Body is required''] else [])
       @ (if ai_AuthorID article = []
          then [err ''author_id'' ErrCodeMissingField ''Author ID is required'']
          else if uuid_Parse L (ai_AuthorID article) = None
          then [err ''author_id'' ErrCodeInvalidAuthor ''Invalid author UUID format''] else [])
       @ (if ai_Status article = [] then [err ''status'' ErrCodeMissingField ''Status is required'']
          else if \<not> AllowedArticleStatuses status
          then [err ''status'' ErrCodeInvalidStatus
                  ''Status must be one of: draft, published, archived''] else [])
       @ (if status = ''draft'' \<and> ai_PublishedAt article \<noteq> []
          then [err ''published_at'' ErrCodeDraftWithPublished
                  ''Draft articles must not have a published_at date''] else [])
       @ (if status = ''published'' \<and> ai_PublishedAt article = []
          then [err ''published_at'' ErrCodeMissingPublishedAt
                  ''Published articles must have a published_at date''] else [])
       @ (if ai_PublishedAt article \<noteq> [] \<and> time_Parse_RFC3339 L (ai_PublishedAt article) = None
          then [err ''published_at'' ErrCodeInvalidTimestamp
                  ''Invalid timestamp format (expected ISO8601/RFC3339)''] else [])
       @ (case ai_Tags article of
            None \<Rightarrow> []
          | Some tags \<Rightarrow>
              (if length tags > 100
               then [err ''tags'' ErrCodeInvalidTags ''Maximum 100 tags allowed''] else [])
            @ (if list_ex (\<lambda>tag. length tag > 50) tags
               then [err ''tags'' ErrCodeInvalidTags ''Each tag must be at most 50 characters'']
               else [])))"

text \<open>\<open>countWords\<close>: a word starts at each rune that is neither space nor punctuation and follows one that is.\<close>

fun countWords_loop :: "('z golib_scheme) \<Rightarrow> int list \<Rightarrow> bool \<Rightarrow> nat \<Rightarrow> nat" where
  "countWords_loop L [] inWord count = count"
| "countWords_loop L (r # rs) inWord count =
     (if unicode_IsSpace L r \<or> unicode_IsPunct L r then countWords_loop L rs False count
      else if \<not> inWord then countWords_loop L rs True (count + 1)
      else countWords_loop L rs inWord count)"

definition countWords :: "('z golib_scheme) \<Rightarrow> string \<Rightarrow> nat" where
  "countWords L s = (if s = [] then 0 else countWords_loop L (range_runes L s) False 0)"

definition ValidateCommentImport :: "('z golib_scheme) \<Rightarrow> int \<Rightarrow> CommentImport \<Rightarrow> ValidationError list" where
  "ValidateCommentImport L row comment =
     (let identifier = (if ci_ID comment = [] then ''row-'' @ string_of_rune (rune row)
                        else ci_ID comment);
          err = NewValidationError row identifier
      in (if ci_ID comment \<noteq> [] \<and> uuid_Parse L (ci_ID comment) = None
          then [err ''id'' ErrCodeInvalidUUID ''Invalid UUID format''] else [])
       @ (if ci_ArticleID comment = []
          then [err ''article_id'' ErrCodeMissingField ''Article ID is required'']
          else if uuid_Parse L (ci_ArticleID comment) = None
          then [err ''article_id'' ErrCodeInvalidArticle ''Invalid article UUID format''] else [])
       @ (if ci_UserID comment = []
          then [err ''user_id'' ErrCodeMissingField ''User ID is required'']
          else if uuid_Parse L (ci_UserID comment) = None
          then [err ''user_id'' ErrCodeInvalidUser ''Invalid user UUID format''] else [])
       @ (if ci_Body comment = [] then [err ''body'' ErrCodeBodyEmpty ''Comment body is required'']
          else if countWords L (ci_Body comment) > MaxCommentWords
          then [err ''body'' ErrCodeBodyTooLong ''Comment body exceeds maximum of 500 words'']
          else [])
       @ (if ci_CreatedAt comment \<noteq> [] \<and> time_Parse_RFC3339 L (ci_CreatedAt comment) = None
          then [err ''created_at'' ErrCodeInvalidTimestamp
                  ''Invalid timestamp format (expected ISO8601/RFC3339)''] else []))"

section \<open>Jobs and progress\<close>

datatype JobType = JobTypeImport | JobTypeExport

datatype JobStatus =
  JobStatusPending | JobStatusProcessing | JobStatusCompleted | JobStatusFailed | JobStatusCancelled

datatype ResourceType = ResourceTypeUsers | ResourceTypeArticles | ResourceTypeComments

record Job =
  job_ID :: uuid
  job_Type :: JobType
  Resource :: ResourceType
  Status :: JobStatus
  IdempotencyKey :: "string option"
  FilePath :: "string option"
  TotalRecords :: int
  ProcessedRecords :: int
  SuccessfulRecords :: int
  FailedRecords :: int
  ErrorMessage :: "string option"
  StartedAt :: "int option"
  CompletedAt :: "int option"
  job_CreatedAt :: int

text \<open>
  \<open>float64\<close>.  A finite double is a rational number; an arithmetic operation returns the
  exact result rounded to the nearest double, ties to the even significand.  For a
  non-zero \<open>x\<close> the doubles near \<open>x\<close> are the multiples of \<open>2 ^ (e - 52)\<close> where
  \<open>2 ^ e \<le> |x| < 2 ^ (e + 1)\<close>.  The counters are 64-bit integers, so every value that
  \<open>CalculateProgress\<close> computes lies between \<open>2 ^ -64\<close> and \<open>2 ^ 71\<close> in magnitude (or is
  zero): neither overflow nor the subnormal range is reached, and both are left out.
\<close>

function bit_length :: "int \<Rightarrow> int" where
  "bit_length n = (if n \<le> 0 then 0 else 1 + bit_length (n div 2))"
  by pat_completeness auto
termination
  by (relation "measure nat") auto

declare bit_length.simps [simp del]

text \<open>\<open>floor_log2 x\<close> is the \<open>e\<close> with \<open>2 ^ e \<le> x < 2 ^ (e + 1)\<close>, for \<open>x > 0\<close>.\<close>

definition floor_log2 :: "rat \<Rightarrow> int" where
  "floor_log2 x =
     (if 1 \<le> x then bit_length \<lfloor>x\<rfloor> - 1
      else - bit_length (\<lceil>1 / x\<rceil> - 1))"

definition pow2 :: "int \<Rightarrow> rat" where
  "pow2 e = (if 0 \<le> e then 2 ^ nat e else 1 / 2 ^ nat (- e))"

definition round_half_even :: "rat \<Rightarrow> int" where
  "round_half_even m =
     (let f = \<lfloor>m\<rfloor>; d = m - of_int f
      in if d < 1 / 2 then f else if 1 / 2 < d then f + 1 else if even f then f else f + 1)"

definition float64 :: "rat \<Rightarrow> rat" where
  "float64 x =
     (if x = 0 then 0
      else let e = floor_log2 \<bar>x\<bar> - 52
           in sgn x * of_int (round_half_even (\<bar>x\<bar> / pow2 e)) * pow2 e)"

record JobProgress =
  jp_TotalRecords :: int
  jp_ProcessedRecords :: int
  jp_SuccessfulRecords :: int
  jp_FailedRecords :: int
  Percentage :: rat

definition CalculateProgress :: "('z Job_scheme) \<Rightarrow> JobProgress" where
  "CalculateProgress j =
     (let percentage =
            (if TotalRecords j > 0
             then float64 (float64 (float64 (of_int (ProcessedRecords j))
                                      / float64 (of_int (TotalRecords j))) * 100)
             else 0);
          percentage =
            (if percentage \<ge> 100 \<and> Status j \<noteq> JobStatusCompleted \<and> Status j \<noteq> JobStatusFailed
             then 99 else percentage)
      in \<lparr>jp_TotalRecords = TotalRecords j, jp_ProcessedRecords = ProcessedRecords j,
          jp_SuccessfulRecords = SuccessfulRecords j, jp_FailedRecords = FailedRecords j,
          Percentage = percentage\<rparr>)"

text \<open>
  The value of \<open>percentage\<close> before the guard, that is after
  \<open>percentage = float64(j.ProcessedRecords) / float64(j.TotalRecords) * 100\<close>
  (and \<open>0\<close> when \<open>TotalRecords\<close> is not positive).
\<close>

definition computed_percentage :: "('z Job_scheme) \<Rightarrow> rat" where
  "computed_percentage j =
     (if TotalRecords j > 0
      then float64 (float64 (float64 (of_int (ProcessedRecords j))
                               / float64 (of_int (TotalRecords j))) * 100)
      else 0)"


section \<open>Target relations and the batch write\<close>

record User =
  u_ID :: uuid
  u_Email :: string
  u_Name :: string
  u_Role :: string
  u_Active :: bool
  u_CreatedAt :: time
  u_UpdatedAt :: time

record Article =
  a_ID :: uuid
  a_Slug :: string
  a_Title :: string
  a_Body :: string
  a_AuthorID :: uuid
  a_Tags :: "string option"
  a_PublishedAt :: "time option"
  a_Status :: string
  a_CreatedAt :: time
  a_UpdatedAt :: time

record Comment =
  c_ID :: uuid
  c_ArticleID :: uuid
  c_UserID :: uuid
  c_Body :: string
  c_CreatedAt :: time
  c_UpdatedAt :: time

definition uuid_Nil :: uuid where
  "uuid_Nil = ''00000000-0000-0000-0000-000000000000''"

datatype sql_error =
  UniqueViolation | CheckViolation | ForeignKeyViolation | CardinalityViolation | UndefinedColumn

text \<open>
  \<open>INSERT INTO t (...) VALUES ... ON CONFLICT (id) DO UPDATE SET ...\<close> as PostgreSQL runs it,
  one proposed row after the other.  \<open>pk\<close> reads the primary key \<open>id\<close>, the arbiter of the
  conflict; \<open>upd old excluded\<close> is the row the \<open>SET\<close> list (and the \<open>BEFORE UPDATE\<close>
  trigger of the schema) makes of the stored row; \<open>chk others r\<close> tells which of the other
  constraints of the table (\<open>UNIQUE\<close>, \<open>CHECK\<close>, \<open>REFERENCES\<close>) the row \<open>r\<close> would break
  next to the rows \<open>others\<close>.  A proposed row whose id is stored is turned into an update of
  that row; an update of a row that this statement has already written is refused; a
  broken constraint fails the statement.  The result is the number of rows written and
  the new relation; the length limits of \<open>VARCHAR\<close> columns are not modelled.
\<close>

fun insert_on_conflict_id ::
  "('r \<Rightarrow> uuid) \<Rightarrow> ('r \<Rightarrow> 'r \<Rightarrow> 'r) \<Rightarrow> ('r list \<Rightarrow> 'r \<Rightarrow> sql_error option)
     \<Rightarrow> 'r list \<Rightarrow> uuid list \<Rightarrow> 'r list \<Rightarrow> sql_error + nat \<times> 'r list" where
  "insert_on_conflict_id pk upd chk tbl written [] = Inr (length written, tbl)"
| "insert_on_conflict_id pk upd chk tbl written (x # xs) =
     (case find (\<lambda>r. pk r = pk x) tbl of
        None \<Rightarrow>
          (case chk tbl x of
             Some e \<Rightarrow> Inl e
           | None \<Rightarrow> insert_on_conflict_id pk upd chk (tbl @ [x]) (pk x # written) xs)
      | Some old \<Rightarrow>
          if pk x \<in> set written then Inl CardinalityViolation
          else (case chk (filter (\<lambda>r. pk r \<noteq> pk x) tbl) (upd old x) of
                  Some e \<Rightarrow> Inl e
                | None \<Rightarrow>
                    insert_on_conflict_id pk upd chk
                      (map (\<lambda>r. if pk r = pk x then upd old x else r) tbl) (pk x # written) xs))"

text \<open>
  \<open>users\<close>: \<open>email UNIQUE\<close>, \<open>CHECK (role IN ('admin', 'author', 'reader'))\<close>; the trigger
  \<open>update_users_updated_at\<close> sets \<open>updated_at = NOW()\<close> on every update.
\<close>

definition users_constraints :: "User list \<Rightarrow> User \<Rightarrow> sql_error option" where
  "users_constraints others r =
     (if u_Role r \<notin> set [''admin'', ''author'', ''reader''] then Some CheckViolation
      else if u_Email r \<in> set (map u_Email others) then Some UniqueViolation
      else None)"

definition users_on_conflict :: "time \<Rightarrow> User \<Rightarrow> User \<Rightarrow> User" where
  "users_on_conflict now old excluded =
     old\<lparr>u_Email := u_Email excluded, u_Name := u_Name excluded, u_Role := u_Role excluded,
         u_Active := u_Active excluded, u_UpdatedAt := now\<rparr>"

text \<open>
  \<open>UserRepository.CreateBatch\<close>.  \<open>fresh\<close> are the values \<open>uuid.New()\<close> returns, in order,
  \<open>now\<close> the clock (\<open>time.Now()\<close> and the database's \<open>NOW()\<close>).
\<close>

fun fill_user_defaults :: "time \<Rightarrow> uuid list \<Rightarrow> User list \<Rightarrow> User list" where
  "fill_user_defaults now fresh [] = []"
| "fill_user_defaults now fresh (u # us) =
     (let (u1, fresh1) =
            (if u_ID u = uuid_Nil
             then (case fresh of [] \<Rightarrow> (u, []) | f # fs \<Rightarrow> (u\<lparr>u_ID := f\<rparr>, fs))
             else (u, fresh));
          u2 = (if u_CreatedAt u1 = 0 then u1\<lparr>u_CreatedAt := now\<rparr> else u1);
          u3 = (if u_UpdatedAt u2 = 0 then u2\<lparr>u_UpdatedAt := now\<rparr> else u2)
      in u3 # fill_user_defaults now fresh1 us)"

definition UserRepository_CreateBatch ::
  "time \<Rightarrow> uuid list \<Rightarrow> User list \<Rightarrow> User list \<Rightarrow> sql_error + nat \<times> User list" where
  "UserRepository_CreateBatch now fresh tbl users =
     (if users = [] then Inr (0, tbl)
      else insert_on_conflict_id u_ID (users_on_conflict now) users_constraints tbl []
             (fill_user_defaults now fresh users))"

text \<open>
  \<open>articles\<close>: \<open>slug UNIQUE\<close>, \<open>author_id REFERENCES users(id)\<close>,
  \<open>CHECK (status IN ('draft', 'published'))\<close> and \<open>chk_published_at\<close>.
\<close>

definition articles_constraints :: "User list \<Rightarrow> Article list \<Rightarrow> Article \<Rightarrow> sql_error option" where
  "articles_constraints users others r =
     (if a_Status r \<notin> set [''draft'', ''published''] then Some CheckViolation
      else if \<not> ((a_Status r = ''draft'' \<and> a_PublishedAt r = None)
                   \<or> (a_Status r = ''published'' \<and> a_PublishedAt r \<noteq> None))
      then Some CheckViolation
      else if a_Slug r \<in> set (map a_Slug others) then Some UniqueViolation
      else if a_AuthorID r \<notin> set (map u_ID users) then Some ForeignKeyViolation
      else None)"

definition articles_on_conflict :: "time \<Rightarrow> Article \<Rightarrow> Article \<Rightarrow> Article" where
  "articles_on_conflict now old excluded =
     old\<lparr>a_Slug := a_Slug excluded, a_Title := a_Title excluded, a_Body := a_Body excluded,
         a_AuthorID := a_AuthorID excluded, a_Tags := a_Tags excluded,
         a_PublishedAt := a_PublishedAt excluded, a_Status := a_Status excluded,
         a_UpdatedAt := now\<rparr>"

fun fill_article_defaults :: "time \<Rightarrow> uuid list \<Rightarrow> Article list \<Rightarrow> Article list" where
  "fill_article_defaults now fresh [] = []"
| "fill_article_defaults now fresh (a # rest) =
     (let (a1, fresh1) =
            (if a_ID a = uuid_Nil
             then (case fresh of [] \<Rightarrow> (a, []) | f # fs \<Rightarrow> (a\<lparr>a_ID := f\<rparr>, fs))
             else (a, fresh));
          a2 = (if a_CreatedAt a1 = 0 then a1\<lparr>a_CreatedAt := now\<rparr> else a1);
          a3 = (if a_UpdatedAt a2 = 0 then a2\<lparr>a_UpdatedAt := now\<rparr> else a2);
          a4 = (if a_Tags a3 = None then a3\<lparr>a_Tags := Some ''[]''\<rparr> else a3)
      in a4 # fill_article_defaults now fresh1 rest)"

definition ArticleRepository_CreateBatch ::
  "time \<Rightarrow> uuid list \<Rightarrow> User list \<Rightarrow> Article list \<Rightarrow> Article list
     \<Rightarrow> sql_error + nat \<times> Article list" where
  "ArticleRepository_CreateBatch now fresh users tbl articles =
     (if articles = [] then Inr (0, tbl)
      else insert_on_conflict_id a_ID (articles_on_conflict now) (articles_constraints users) tbl []
             (fill_article_defaults now fresh articles))"

text \<open>
  \<open>comments\<close>: \<open>article_id REFERENCES articles(id)\<close>, \<open>user_id REFERENCES users(id)\<close>.  The
  statement names no \<open>updated_at\<close>: an inserted row takes the column default \<open>NOW()\<close>.
\<close>

definition comments_constraints ::
  "User list \<Rightarrow> Article list \<Rightarrow> Comment list \<Rightarrow> Comment \<Rightarrow> sql_error option" where
  "comments_constraints users articles others r =
     (if c_ArticleID r \<notin> set (map a_ID articles) then Some ForeignKeyViolation
      else if c_UserID r \<notin> set (map u_ID users) then Some ForeignKeyViolation
      else None)"

definition comments_on_conflict :: "time \<Rightarrow> Comment \<Rightarrow> Comment \<Rightarrow> Comment" where
  "comments_on_conflict now old excluded =
     old\<lparr>c_ArticleID := c_ArticleID excluded, c_UserID := c_UserID excluded,
         c_Body := c_Body excluded, c_UpdatedAt := now\<rparr>"

fun fill_comment_defaults :: "time \<Rightarrow> uuid list \<Rightarrow> Comment list \<Rightarrow> Comment list" where
  "fill_comment_defaults now fresh [] = []"
| "fill_comment_defaults now fresh (c # cs) =
     (let (c1, fresh1) =
            (if c_ID c = uuid_Nil
             then (case fresh of [] \<Rightarrow> (c, []) | f # fs \<Rightarrow> (c\<lparr>c_ID := f\<rparr>, fs))
             else (c, fresh));
          c2 = (if c_CreatedAt c1 = 0 then c1\<lparr>c_CreatedAt := now\<rparr> else c1)
      in c2\<lparr>c_UpdatedAt := now\<rparr> # fill_comment_defaults now fresh1 cs)"

definition CommentRepository_CreateBatch ::
  "time \<Rightarrow> uuid list \<Rightarrow> User list \<Rightarrow> Article list \<Rightarrow> Comment list \<Rightarrow> Comment list
     \<Rightarrow> sql_error + nat \<times> Comment list" where
  "CommentRepository_CreateBatch now fresh users articles tbl comments =
     (if comments = [] then Inr (0, tbl)
      else insert_on_conflict_id c_ID (comments_on_conflict now) (comments_constraints users articles)
             tbl [] (fill_comment_defaults now fresh comments))"

text \<open>
  What "upsert keyed on the id" means for a relation \<open>tbl\<close>, the proposed rows and the
  relation \<open>tbl'\<close> after the statement: under the id of each proposed row \<open>tbl'\<close> holds the
  proposed row itself if the id was not stored, and otherwise the stored row overwritten
  by \<open>upd\<close>; under every other id it holds what \<open>tbl\<close> held.
\<close>

definition upsert_keyed_on_id ::
  "('r \<Rightarrow> uuid) \<Rightarrow> ('r \<Rightarrow> 'r \<Rightarrow> 'r) \<Rightarrow> 'r list \<Rightarrow> 'r list \<Rightarrow> 'r list \<Rightarrow> bool" where
  "upsert_keyed_on_id pk upd tbl proposed tbl' =
     ((\<forall>x \<in> set proposed.
         find (\<lambda>r. pk r = pk x) tbl'
           = Some (case find (\<lambda>r. pk r = pk x) tbl of None \<Rightarrow> x | Some old \<Rightarrow> upd old x))
      \<and> (\<forall>k. k \<notin> pk ` set proposed \<longrightarrow> find (\<lambda>r. pk r = k) tbl' = find (\<lambda>r. pk r = k) tbl))"

text \<open>
  When a statement goes through.  \<open>ok\<close> tells whether a row meets the \<open>CHECK\<close> and foreign-key
  constraints of its table, \<open>clash\<close> whether two rows hold the same value in a \<open>UNIQUE\<close>
  column.  A batch \<open>xs\<close> is accepted by the relation \<open>tbl\<close> when, for each of its rows in
  order (\<open>earlier\<close> are the rows before it, the latest first), the id of the row is not
  the id of an earlier row, the row is \<open>ok\<close>, and it clashes neither with an earlier row nor
  with a stored row whose id is neither its own nor that of an earlier row.
\<close>

fun accepted ::
  "('r \<Rightarrow> uuid) \<Rightarrow> ('r \<Rightarrow> bool) \<Rightarrow> ('r \<Rightarrow> 'r \<Rightarrow> bool) \<Rightarrow> 'r list \<Rightarrow> 'r list \<Rightarrow> 'r list \<Rightarrow> bool" where
  "accepted pk ok clash tbl earlier [] = True"
| "accepted pk ok clash tbl earlier (x # xs) =
     (pk x \<notin> pk ` set earlier \<and> ok x \<and> \<not> list_ex (\<lambda>d. clash d x) earlier
      \<and> \<not> list_ex (\<lambda>r. pk r \<noteq> pk x \<and> pk r \<notin> pk ` set earlier \<and> clash r x) tbl
      \<and> accepted pk ok clash tbl (x # earlier) xs)"

text \<open>
  The relation \<open>cur\<close> in the middle of a statement, next to the relation \<open>tbl\<close> the statement
  started from and the rows \<open>earlier\<close> it has written: a row of \<open>cur\<close> under the id of an
  earlier row clashes as that row does, every other row of \<open>cur\<close> is a row of \<open>tbl\<close>, and
  the other way round.
\<close>

definition tracks ::
  "('r \<Rightarrow> uuid) \<Rightarrow> ('r \<Rightarrow> 'r \<Rightarrow> bool) \<Rightarrow> 'r list \<Rightarrow> 'r list \<Rightarrow> 'r list \<Rightarrow> bool" where
  "tracks pk clash tbl earlier cur =
     ((\<forall>r \<in> set cur. pk r \<in> pk ` set earlier \<longrightarrow>
          (\<exists>d \<in> set earlier. pk d = pk r \<and> (\<forall>y. clash r y = clash d y)))
      \<and> (\<forall>r \<in> set cur. pk r \<notin> pk ` set earlier \<longrightarrow> r \<in> set tbl)
      \<and> (\<forall>r \<in> set tbl. pk r \<notin> pk ` set earlier \<longrightarrow> r \<in> set cur)
      \<and> (\<forall>d \<in> set earlier. \<exists>r \<in> set cur. pk r = pk d \<and> (\<forall>y. clash r y = clash d y)))"

text \<open>The constraints of the three tables in this form.\<close>

definition users_check :: "User \<Rightarrow> bool" where
  "users_check r = (u_Role r \<in> set [''admin'', ''author'', ''reader''])"

definition email_clash :: "User \<Rightarrow> User \<Rightarrow> bool" where
  "email_clash a b = (u_Email a = u_Email b)"

definition articles_check :: "User list \<Rightarrow> Article \<Rightarrow> bool" where
  "articles_check users r =
     (a_Status r \<in> set [''draft'', ''published'']
      \<and> ((a_Status r = ''draft'' \<and> a_PublishedAt r = None)
           \<or> (a_Status r = ''published'' \<and> a_PublishedAt r \<noteq> None))
      \<and> a_AuthorID r \<in> set (map u_ID users))"

definition slug_clash :: "Article \<Rightarrow> Article \<Rightarrow> bool" where
  "slug_clash a b = (a_Slug a = a_Slug b)"

definition comments_check :: "User list \<Rightarrow> Article list \<Rightarrow> Comment \<Rightarrow> bool" where
  "comments_check users articles r =
     (c_ArticleID r \<in> set (map a_ID articles) \<and> c_UserID r \<in> set (map u_ID users))"

definition no_clash :: "Comment \<Rightarrow> Comment \<Rightarrow> bool" where
  "no_clash a b = False"

section \<open>The staging relations\<close>

text \<open>
  The three staging structs share the columns \<open>staging_id\<close>, \<open>job_id\<close>, \<open>row_number\<close>,
  \<open>id\<close>, \<open>validation_error\<close>, \<open>is_valid\<close>, \<open>is_duplicate\<close> and \<open>processed\<close>; they are the
  fields of \<open>StagingRow\<close>, which each struct extends by its own nullable columns (a \<open>nil\<close>
  pointer, a SQL \<open>NULL\<close>, is \<open>None\<close>).  A relation is the list of its rows;
  \<open>staging_id SERIAL PRIMARY KEY\<close> makes the staging ids of a relation distinct.
\<close>

record StagingRow =
  StagingID :: int
  st_JobID :: uuid
  st_RowNumber :: int
  st_ID :: "string option"
  st_ValidationError :: "string option"
  IsValid :: bool
  IsDuplicate :: bool
  Processed :: bool

record StagingUser = StagingRow +
  su_Email :: "string option"
  su_Name :: "string option"
  su_Role :: "string option"
  su_Active :: "bool option"
  su_CreatedAt :: "string option"
  su_UpdatedAt :: "string option"

record StagingArticle = StagingRow +
  sa_Slug :: "string option"
  sa_Title :: "string option"
  sa_Body :: "string option"
  sa_AuthorID :: "string option"
  sa_Tags :: "string option"
  sa_PublishedAt :: "string option"
  sa_Status :: "string option"

record StagingComment = StagingRow +
  sc_ArticleID :: "string option"
  sc_UserID :: "string option"
  sc_Body :: "string option"
  sc_CreatedAt :: "string option"

text \<open>
  SQL comparison: \<open>a = b\<close> is true only when neither side is \<open>NULL\<close> and the values are
  equal; a \<open>WHERE\<close> clause and \<open>EXISTS\<close> keep the rows for which the condition is true.
\<close>

definition sql_eq :: "'a option \<Rightarrow> 'a option \<Rightarrow> bool" where
  "sql_eq a b = (case a of None \<Rightarrow> False | Some x \<Rightarrow> (case b of None \<Rightarrow> False | Some y \<Rightarrow> x = y))"

text \<open>
  \<open>UPDATE t SET ... WHERE hit\<close>: every row is tested on the relation as it was before
  the statement; the result is \<open>RowsAffected\<close> and the new relation.
\<close>

definition sql_update :: "('r \<Rightarrow> bool) \<Rightarrow> ('r \<Rightarrow> 'r) \<Rightarrow> 'r list \<Rightarrow> nat \<times> 'r list" where
  "sql_update hit upd tbl = (length (filter hit tbl), map (\<lambda>r. if hit r then upd r else r) tbl)"

text \<open>
  The sub-query of the three in-batch statements:
  \<open>EXISTS (SELECT 1 FROM t s2 WHERE s2.job_id = s1.job_id AND key(s2) = key(s1)
  AND s2.staging_id < s1.staging_id)\<close>.
\<close>

definition exists_earlier ::
  "(('z StagingRow_scheme) \<Rightarrow> string option) \<Rightarrow> ('z StagingRow_scheme) list
     \<Rightarrow> ('z StagingRow_scheme) \<Rightarrow> bool" where
  "exists_earlier key tbl s1 =
     list_ex (\<lambda>s2. st_JobID s2 = st_JobID s1 \<and> sql_eq (key s2) (key s1)
                   \<and> StagingID s2 < StagingID s1) tbl"

definition set_duplicate :: "string \<Rightarrow> ('z StagingRow_scheme) \<Rightarrow> ('z StagingRow_scheme)" where
  "set_duplicate code s = s\<lparr>IsDuplicate := True, st_ValidationError := Some code, IsValid := False\<rparr>"

text \<open>\<open>LOWER\<close> is PostgreSQL's function, a parameter of the statements that call it.\<close>

definition lower_email :: "(string \<Rightarrow> string) \<Rightarrow> StagingUser \<Rightarrow> string option" where
  "lower_email LOWER s = map_option LOWER (su_Email s)"

definition lower_slug :: "(string \<Rightarrow> string) \<Rightarrow> StagingArticle \<Rightarrow> string option" where
  "lower_slug LOWER s = map_option LOWER (sa_Slug s)"

definition MarkDuplicateUsersInBatch ::
  "(string \<Rightarrow> string) \<Rightarrow> uuid \<Rightarrow> StagingUser list \<Rightarrow> nat \<times> StagingUser list" where
  "MarkDuplicateUsersInBatch LOWER jobID tbl =
     sql_update (\<lambda>s1. st_JobID s1 = jobID \<and> exists_earlier (lower_email LOWER) tbl s1)
       (set_duplicate ''DUPLICATE_EMAIL'') tbl"

definition MarkDuplicateArticlesInBatch ::
  "(string \<Rightarrow> string) \<Rightarrow> uuid \<Rightarrow> StagingArticle list \<Rightarrow> nat \<times> StagingArticle list" where
  "MarkDuplicateArticlesInBatch LOWER jobID tbl =
     sql_update (\<lambda>s1. st_JobID s1 = jobID \<and> exists_earlier (lower_slug LOWER) tbl s1)
       (set_duplicate ''DUPLICATE_SLUG'') tbl"

definition MarkDuplicateCommentsInBatch ::
  "uuid \<Rightarrow> StagingComment list \<Rightarrow> nat \<times> StagingComment list" where
  "MarkDuplicateCommentsInBatch jobID tbl =
     sql_update (\<lambda>s1. st_JobID s1 = jobID \<and> st_ID s1 \<noteq> None \<and> exists_earlier st_ID tbl s1)
       (set_duplicate ''DUPLICATE_ID'') tbl"

definition MarkDuplicateUsersAgainstExisting ::
  "(string \<Rightarrow> string) \<Rightarrow> User list \<Rightarrow> uuid \<Rightarrow> StagingUser list \<Rightarrow> nat \<times> StagingUser list" where
  "MarkDuplicateUsersAgainstExisting LOWER users jobID tbl =
     sql_update
       (\<lambda>s. st_JobID s = jobID \<and> IsValid s
            \<and> list_ex (\<lambda>u. sql_eq (Some (LOWER (u_Email u))) (lower_email LOWER s)) users
            \<and> (st_ID s = None \<or> \<not> list_ex (\<lambda>u2. sql_eq (Some (u_ID u2)) (st_ID s)) users))
       (set_duplicate ''DUPLICATE_EMAIL'') tbl"

definition MarkDuplicateArticlesAgainstExisting ::
  "(string \<Rightarrow> string) \<Rightarrow> Article list \<Rightarrow> uuid \<Rightarrow> StagingArticle list
     \<Rightarrow> nat \<times> StagingArticle list" where
  "MarkDuplicateArticlesAgainstExisting LOWER articles jobID tbl =
     sql_update
       (\<lambda>s. st_JobID s = jobID \<and> IsValid s
            \<and> list_ex (\<lambda>a. sql_eq (Some (LOWER (a_Slug a))) (lower_slug LOWER s)) articles
            \<and> (st_ID s = None \<or> \<not> list_ex (\<lambda>a2. sql_eq (Some (a_ID a2)) (st_ID s)) articles))
       (set_duplicate ''DUPLICATE_SLUG'') tbl"

definition MarkInvalidAuthorFKArticles ::
  "User list \<Rightarrow> uuid \<Rightarrow> StagingArticle list \<Rightarrow> nat \<times> StagingArticle list" where
  "MarkInvalidAuthorFKArticles users jobID tbl =
     sql_update
       (\<lambda>s. st_JobID s = jobID \<and> IsValid s \<and> sa_AuthorID s \<noteq> None
            \<and> \<not> list_ex (\<lambda>u. sql_eq (Some (u_ID u)) (sa_AuthorID s)) users)
       (\<lambda>s. s\<lparr>IsValid := False, st_ValidationError := Some ''INVALID_AUTHOR_FK''\<rparr>) tbl"

definition MarkInvalidFKComments ::
  "User list \<Rightarrow> Article list \<Rightarrow> uuid \<Rightarrow> StagingComment list \<Rightarrow> nat \<times> StagingComment list" where
  "MarkInvalidFKComments users articles jobID tbl =
     (let no_article = (\<lambda>s. sc_ArticleID s \<noteq> None
                            \<and> \<not> list_ex (\<lambda>a. sql_eq (Some (a_ID a)) (sc_ArticleID s)) articles);
          no_user = (\<lambda>s. sc_UserID s \<noteq> None
                         \<and> \<not> list_ex (\<lambda>u. sql_eq (Some (u_ID u)) (sc_UserID s)) users)
      in sql_update (\<lambda>s. st_JobID s = jobID \<and> IsValid s \<and> (no_article s \<or> no_user s))
           (\<lambda>s. s\<lparr>IsValid := False,
                  st_ValidationError :=
                    Some (if no_article s then ''INVALID_ARTICLE_FK''
                          else if no_user s then ''INVALID_USER_FK'' else ''INVALID_FK'')\<rparr>) tbl)"

text \<open>
  \<open>GetValidStaging...\<close>: the rows \<open>WHERE job_id = $1 AND is_valid = true AND is_duplicate =
  false AND processed = false ORDER BY staging_id ASC\<close>, handed to the callback in batches.
  A batch is closed as soon as \<open>len(batch) >= batchSize\<close>, so \<open>batchSize = 0\<close> gives batches
  of one row.  With a negative \<open>batchSize\<close> the code panics in
  \<open>make([]..., 0, batchSize)\<close> before it reads a row and hands over no batch at all, where
  this list still has its one-row batches; the pipeline that calls it
  (\<open>processUsersImport\<close> below) panics on a negative \<open>BatchSize\<close> before it gets here.
\<close>

definition select_valid :: "uuid \<Rightarrow> ('z StagingRow_scheme) list \<Rightarrow> ('z StagingRow_scheme) list" where
  "select_valid jobID tbl =
     sort_key StagingID
       (filter (\<lambda>s. st_JobID s = jobID \<and> IsValid s \<and> \<not> IsDuplicate s \<and> \<not> Processed s) tbl)"

function chunks :: "nat \<Rightarrow> 'a list \<Rightarrow> 'a list list" where
  "chunks m xs = (if xs = [] then [] else take (Suc m) xs # chunks m (drop (Suc m) xs))"
  by pat_completeness auto
termination
  by (relation "measure (\<lambda>(m, xs). length xs)") auto

declare chunks.simps [simp del]

definition GetValidStaging ::
  "uuid \<Rightarrow> int \<Rightarrow> ('z StagingRow_scheme) list \<Rightarrow> ('z StagingRow_scheme) list list" where
  "GetValidStaging jobID batchSize tbl = chunks (nat (batchSize - 1)) (select_valid jobID tbl)"

text \<open>
  Pass 2 and the selection of pass 3 for each resource, in the order of the
  \<open>process...Import\<close> functions; the result is the list of batches that are promoted.
\<close>

definition users_to_promote ::
  "(string \<Rightarrow> string) \<Rightarrow> User list \<Rightarrow> uuid \<Rightarrow> int \<Rightarrow> StagingUser list \<Rightarrow> StagingUser list list" where
  "users_to_promote LOWER users jobID batchSize tbl =
     GetValidStaging jobID batchSize
       (snd (MarkDuplicateUsersAgainstExisting LOWER users jobID
          (snd (MarkDuplicateUsersInBatch LOWER jobID tbl))))"

definition articles_to_promote ::
  "(string \<Rightarrow> string) \<Rightarrow> User list \<Rightarrow> Article list \<Rightarrow> uuid \<Rightarrow> int \<Rightarrow> StagingArticle list
     \<Rightarrow> StagingArticle list list" where
  "articles_to_promote LOWER users articles jobID batchSize tbl =
     GetValidStaging jobID batchSize
       (snd (MarkInvalidAuthorFKArticles users jobID
          (snd (MarkDuplicateArticlesAgainstExisting LOWER articles jobID
             (snd (MarkDuplicateArticlesInBatch LOWER jobID tbl))))))"

definition comments_to_promote ::
  "User list \<Rightarrow> Article list \<Rightarrow> uuid \<Rightarrow> int \<Rightarrow> StagingComment list \<Rightarrow> StagingComment list list" where
  "comments_to_promote users articles jobID batchSize tbl =
     GetValidStaging jobID batchSize
       (snd (MarkInvalidFKComments users articles jobID
          (snd (MarkDuplicateCommentsInBatch jobID tbl))))"

text \<open>
  First occurrence wins, for the relation \<open>tbl\<close> before an in-batch statement, the
  relation \<open>tbl'\<close> after it and the staging ids that are later promoted: of the rows of
  the job that carry one (non-null) key, the one with the least staging id is still
  stored as it was, and every other one is stored with \<open>is_duplicate = true\<close> and
  \<open>is_valid = false\<close> and is not promoted.
\<close>

definition first_occurrence_wins ::
  "(('z StagingRow_scheme) \<Rightarrow> string option) \<Rightarrow> uuid \<Rightarrow> ('z StagingRow_scheme) list
     \<Rightarrow> ('z StagingRow_scheme) list \<Rightarrow> int list \<Rightarrow> bool" where
  "first_occurrence_wins key jobID tbl tbl' promoted =
     (\<forall>r \<in> set tbl. st_JobID r = jobID \<and> key r \<noteq> None \<longrightarrow>
        (if list_all (\<lambda>x. st_JobID x = jobID \<and> key x = key r \<longrightarrow> StagingID r \<le> StagingID x) tbl
         then find (\<lambda>x. StagingID x = StagingID r) tbl' = Some r
         else (case find (\<lambda>x. StagingID x = StagingID r) tbl' of
                 None \<Rightarrow> False
               | Some r' \<Rightarrow> IsDuplicate r' \<and> \<not> IsValid r')
              \<and> StagingID r \<notin> set promoted))"

section \<open>Pass 1: from a parsed record to a staging row\<close>

text \<open>
  The closures \<open>processUser\<close> and \<open>processArticle\<close> build one staging row per callback and
  validate the record.  The row has no staging id yet (the relation assigns it on
  insert); \<open>is_duplicate\<close> and \<open>processed\<close> take their column default \<open>false\<close>.  The result is
  the row and the validation errors that go to the error journal; a record that could
  not be parsed (\<open>None\<close>) gives an invalid row and no journal entry.
\<close>

definition opt :: "string \<Rightarrow> string option" where
  "opt s = (if s \<noteq> [] then Some s else None)"

definition parse_error_message :: string where
  "parse_error_message = ErrCodeFileParseError @ '': Invalid record format''"

definition first_error :: "ValidationError list \<Rightarrow> string option" where
  "first_error errs = (case errs of [] \<Rightarrow> None | e # _ \<Rightarrow> Some (Code e @ '': '' @ Message e))"


definition processArticle_row ::
  "('z golib_scheme) \<Rightarrow> uuid \<Rightarrow> int \<Rightarrow> ArticleImport option
     \<Rightarrow> StagingArticle \<times> ValidationError list" where
  "processArticle_row L jobID row article =
     (case article of
        None \<Rightarrow>
          (\<lparr>StagingID = 0, st_JobID = jobID, st_RowNumber = row, st_ID = None,
            st_ValidationError = Some parse_error_message, IsValid = False, IsDuplicate = False,
            Processed = False, sa_Slug = None, sa_Title = None, sa_Body = None, sa_AuthorID = None,
            sa_Tags = None, sa_PublishedAt = None, sa_Status = None\<rparr>, [])
      | Some a \<Rightarrow>
          (let errs = ValidateArticleImport L row a
           in (\<lparr>StagingID = 0, st_JobID = jobID, st_RowNumber = row, st_ID = opt (ai_ID a),
                st_ValidationError = first_error errs, IsValid = (errs = []), IsDuplicate = False,
                Processed = False,
                sa_Slug = (if ai_Slug a \<noteq> []
                           then Some (ReplaceAll_space_hyphen (ToLower L (TrimSpace L (ai_Slug a))))
                           else None),
                sa_Title = opt (ai_Title a), sa_Body = opt (ai_Body a),
                sa_AuthorID = opt (ai_AuthorID a),
                sa_Tags = map_option (json_Marshal L) (ai_Tags a),
                sa_PublishedAt = opt (ai_PublishedAt a),
                sa_Status = (if ai_Status a \<noteq> [] then Some (ToLower L (ai_Status a)) else None)\<rparr>,
               errs)))"

text \<open>
  The slug of \<open>ConvertToArticle\<close>: as above, and then \<open>"--"\<close> is replaced by \<open>"-"\<close> for as
  long as the slug contains \<open>"--"\<close>.  Each round shortens the slug, so the loop ends.
\<close>

lemma ReplaceAll_hyphens_shorter:
  "Contains_hyphens s \<Longrightarrow> length (ReplaceAll_hyphens s) < length s"
proof (induction s rule: ReplaceAll_hyphens.induct)
  case (1 a b cs)
  have le: "\<And>t. length (ReplaceAll_hyphens t) \<le> length t"
  proof -
    fix t show "length (ReplaceAll_hyphens t) \<le> length t"
      by (induction t rule: ReplaceAll_hyphens.induct) auto
  qed
  show ?case
  proof (cases "a = CHR ''-'' \<and> b = CHR ''-''")
    case True
    then show ?thesis using le [of cs] by simp
  next
    case False
    with 1 show ?thesis by auto
  qed
qed simp_all

function collapse_hyphens :: "string \<Rightarrow> string" where
  "collapse_hyphens s = (if Contains_hyphens s then collapse_hyphens (ReplaceAll_hyphens s) else s)"
  by pat_completeness auto
termination
  by (relation "measure length") (auto simp: ReplaceAll_hyphens_shorter)

declare collapse_hyphens.simps [simp del]

definition ConvertToArticle_slug :: "('z golib_scheme) \<Rightarrow> ArticleImport \<Rightarrow> string" where
  "ConvertToArticle_slug L ai =
     collapse_hyphens (ReplaceAll_space_hyphen (ToLower L (TrimSpace L (ai_Slug ai))))"

text \<open>
  The normal form in the words of the specification: the slug lower-cased, every run of
  spaces collapsed to a single \<open>-\<close>, and every run of \<open>-\<close> collapsed to a single \<open>-\<close>.
  \<open>collapse_runs a b\<close> puts one \<open>b\<close> in the place of each maximal run of \<open>a\<close>.
\<close>

fun collapse_runs :: "char \<Rightarrow> char \<Rightarrow> string \<Rightarrow> string" where
  "collapse_runs a b (c # d # cs) =
     (if c = a \<and> d = a then collapse_runs a b (d # cs)
      else (if c = a then b else c) # collapse_runs a b (d # cs))"
| "collapse_runs a b [c] = [if c = a then b else c]"
| "collapse_runs a b [] = []"

definition spec_normalized_slug :: "('z golib_scheme) \<Rightarrow> string \<Rightarrow> string" where
  "spec_normalized_slug L slug =
     collapse_runs CHR ''-'' CHR ''-'' (collapse_runs CHR '' '' CHR ''-'' (ToLower L slug))"

text \<open>The characters of a word of a slug.\<close>

definition slug_char :: "char \<Rightarrow> bool" where
  "slug_char c = (c \<in> set lower_alnum)"

section \<open>Parsers\<close>












section \<open>The database and the import of users\<close>

record JobError =
  je_JobID :: uuid
  je_RowNumber :: int
  je_RecordIdentifier :: "string option"
  je_FieldName :: "string option"
  je_ErrorCode :: string
  je_ErrorMessage :: string
  je_RawData :: "string option"

text \<open>
  The relations an import of users reads and writes, the next value of the sequence
  behind \<open>staging_users.staging_id\<close>, and three counters that the program does not hold:
  \<open>rows_written\<close>, the rows that committed statements have inserted into \<open>users\<close> or updated
  there; \<open>db_calls\<close>, the number of database calls made so far whose error the code looks
  at; \<open>uuids_drawn\<close>, the number of values \<open>uuid.New()\<close> has handed out.
\<close>

record database =
  tbl_jobs :: "Job list"
  tbl_job_errors :: "JobError list"
  tbl_users :: "User list"
  tbl_staging_users :: "StagingUser list"
  seq_staging_users :: int
  rows_written :: nat
  db_calls :: nat
  uuids_drawn :: nat




subsection \<open>The job repository\<close>

text \<open>\<open>UPDATE jobs SET ... WHERE id = $1\<close>.\<close>

definition update_job :: "uuid \<Rightarrow> (Job \<Rightarrow> Job) \<Rightarrow> database \<Rightarrow> database" where
  "update_job jobID f s =
     s\<lparr>tbl_jobs := map (\<lambda>j. if job_ID j = jobID then f j else j) (tbl_jobs s)\<rparr>"


definition UpdateProgress :: "uuid \<Rightarrow> int \<Rightarrow> int \<Rightarrow> int \<Rightarrow> database \<Rightarrow> database" where
  "UpdateProgress jobID processed successful failed =
     update_job jobID (\<lambda>j. j\<lparr>ProcessedRecords := processed, SuccessfulRecords := successful,
                              FailedRecords := failed\<rparr>)"

definition SetTotalRecords :: "uuid \<Rightarrow> int \<Rightarrow> database \<Rightarrow> database" where
  "SetTotalRecords jobID n = update_job jobID (\<lambda>j. j\<lparr>TotalRecords := n\<rparr>)"

definition SetStarted :: "time \<Rightarrow> uuid \<Rightarrow> database \<Rightarrow> database" where
  "SetStarted now jobID =
     update_job jobID (\<lambda>j. j\<lparr>Status := JobStatusProcessing, StartedAt := Some now\<rparr>)"

definition SetCompleted :: "time \<Rightarrow> uuid \<Rightarrow> int \<Rightarrow> int \<Rightarrow> database \<Rightarrow> database" where
  "SetCompleted now jobID successful failed =
     update_job jobID (\<lambda>j. j\<lparr>Status := JobStatusCompleted, SuccessfulRecords := successful,
                              FailedRecords := failed, CompletedAt := Some now\<rparr>)"

definition SetFailed :: "time \<Rightarrow> uuid \<Rightarrow> string \<Rightarrow> database \<Rightarrow> database" where
  "SetFailed now jobID errorMessage =
     update_job jobID (\<lambda>j. j\<lparr>Status := JobStatusFailed, ErrorMessage := Some errorMessage,
                              CompletedAt := Some now\<rparr>)"



subsection \<open>Pass 1\<close>







subsection \<open>Pass 3\<close>

definition deref :: "string option \<Rightarrow> string" where
  "deref p = (case p of None \<Rightarrow> [] | Some v \<Rightarrow> v)"

definition parse_time_or :: "('z golib_scheme) \<Rightarrow> time \<Rightarrow> string option \<Rightarrow> time" where
  "parse_time_or L now p =
     (case p of
        None \<Rightarrow> now
      | Some v \<Rightarrow> (case time_Parse_RFC3339 L v of Some t \<Rightarrow> t | None \<Rightarrow> now))"

text \<open>\<open>convertStagingToUser\<close>; \<open>fresh\<close> is the value \<open>uuid.New()\<close> would return. \<open>None\<close> is the error of \<open>uuid.Parse\<close>.\<close>

definition convertStagingToUser ::
  "('z golib_scheme) \<Rightarrow> time \<Rightarrow> uuid \<Rightarrow> StagingUser \<Rightarrow> User option" where
  "convertStagingToUser L now fresh su =
     (case (if st_ID su \<noteq> None \<and> st_ID su \<noteq> Some [] then uuid_Parse L (deref (st_ID su))
            else Some fresh) of
        None \<Rightarrow> None
      | Some uid \<Rightarrow>
          Some \<lparr>u_ID = uid, u_Email = deref (su_Email su), u_Name = deref (su_Name su),
                u_Role = deref (su_Role su),
                u_Active = (case su_Active su of None \<Rightarrow> True | Some a \<Rightarrow> a),
                u_CreatedAt = parse_time_or L now (su_CreatedAt su),
                u_UpdatedAt = parse_time_or L now (su_UpdatedAt su)\<rparr>)"

text \<open>
  \<open>convertStagingToArticle\<close>: the tags default to \<open>[]\<close>, a missing author is the zero
  UUID, a \<open>published_at\<close> that does not parse is dropped, and both timestamps are the clock.
\<close>

definition convertStagingToArticle ::
  "('z golib_scheme) \<Rightarrow> time \<Rightarrow> uuid \<Rightarrow> StagingArticle \<Rightarrow> Article option" where
  "convertStagingToArticle L now fresh sa =
     (case (if st_ID sa \<noteq> None \<and> st_ID sa \<noteq> Some [] then uuid_Parse L (deref (st_ID sa))
            else Some fresh) of
        None \<Rightarrow> None
      | Some aid \<Rightarrow>
          (case (case sa_AuthorID sa of None \<Rightarrow> Some uuid_Nil | Some a \<Rightarrow> uuid_Parse L a) of
             None \<Rightarrow> None
           | Some author \<Rightarrow>
               Some \<lparr>a_ID = aid, a_Slug = deref (sa_Slug sa), a_Title = deref (sa_Title sa),
                     a_Body = deref (sa_Body sa), a_AuthorID = author,
                     a_Tags = Some (case sa_Tags sa of None \<Rightarrow> ''[]'' | Some t \<Rightarrow> t),
                     a_PublishedAt =
                       (case sa_PublishedAt sa of None \<Rightarrow> None | Some p \<Rightarrow> time_Parse_RFC3339 L p),
                     a_Status = deref (sa_Status sa), a_CreatedAt = now, a_UpdatedAt = now\<rparr>))"




subsection \<open>The pipeline\<close>






subsection \<open>The counters of a job\<close>






section \<open>An instance of the library parameters for ASCII data\<close>

text \<open>
  The examples below run the definitions on concrete ASCII records.  For them the
  library parameters are instantiated by \<open>stdlib_ascii\<close>, which stands for the library on
  the data of the examples only: \<open>uuid.Parse\<close> accepts the four textual forms of a UUID;
  \<open>time.Parse\<close> accepts the one form \<open>YYYY-MM-DDTHH:MM:SSZ\<close> of RFC 3339, with the month, the
  day of the month, the hour, the minute and the second in their ranges, and no other
  (no fraction of a second, no numeric zone); \<open>json.Marshal\<close> writes tags that need no
  escaping (no quote, backslash, \<open><\<close>, \<open>>\<close>, \<open>&\<close> or control character); the Unicode
  fall-backs (never reached on ASCII input) return their argument.
\<close>

definition is_hex :: "char \<Rightarrow> bool" where
  "is_hex c = (c \<in> set ''0123456789abcdefABCDEF'')"

definition is_digit :: "char \<Rightarrow> bool" where
  "is_digit c = (c \<in> set ''0123456789'')"

definition uuid_canonical :: "string \<Rightarrow> bool" where
  "uuid_canonical s =
     (length s = 36 \<and>
      list_all (\<lambda>i. if i \<in> set [8, 13, 18, 23] then s ! i = CHR ''-'' else is_hex (s ! i)) [0..<36])"

definition hyphenate :: "string \<Rightarrow> string" where
  "hyphenate h =
     take 8 h @ ''-'' @ take 4 (drop 8 h) @ ''-'' @ take 4 (drop 12 h) @ ''-''
       @ take 4 (drop 16 h) @ ''-'' @ drop 20 h"

definition uuid_Parse_ascii :: "string \<Rightarrow> uuid option" where
  "uuid_Parse_ascii s =
     (if length s = 36 then (if uuid_canonical s then Some (map lower_byte s) else None)
      else if length s = 45
      then (if map lower_byte (take 9 s) = ''urn:uuid:'' \<and> uuid_canonical (drop 9 s)
            then Some (map lower_byte (drop 9 s)) else None)
      else if length s = 38
      then (if uuid_canonical (take 36 (drop 1 s)) then Some (map lower_byte (take 36 (drop 1 s)))
            else None)
      else if length s = 32
      then (if list_all is_hex s then Some (hyphenate (map lower_byte s)) else None)
      else None)"

definition rfc3339_shape :: "string \<Rightarrow> bool" where
  "rfc3339_shape s =
     (length s = 20 \<and>
      list_all (\<lambda>i. if i \<in> set [4, 7] then s ! i = CHR ''-''
                     else if i = 10 then s ! i = CHR ''T''
                     else if i \<in> set [13, 16] then s ! i = CHR '':''
                     else if i = 19 then s ! i = CHR ''Z''
                     else is_digit (s ! i)) [0..<20])"

definition digits_value :: "string \<Rightarrow> int" where
  "digits_value ds = foldl (\<lambda>n c. 10 * n + (int (byte c) - 48)) 0 ds"

definition days_in_month :: "int \<Rightarrow> int \<Rightarrow> int" where
  "days_in_month y m =
     (if m = 2 then (if y mod 4 = 0 \<and> (y mod 400 = 0 \<or> y mod 100 \<noteq> 0) then 29 else 28)
      else if m \<in> set [4, 6, 9, 11] then 30 else 31)"

definition rfc3339_ranges :: "string \<Rightarrow> bool" where
  "rfc3339_ranges s =
     (let y = digits_value (take 4 s); m = digits_value (take 2 (drop 5 s));
          d = digits_value (take 2 (drop 8 s))
      in 1 \<le> m \<and> m \<le> 12 \<and> 1 \<le> d \<and> d \<le> days_in_month y m
         \<and> digits_value (take 2 (drop 11 s)) \<le> 23 \<and> digits_value (take 2 (drop 14 s)) \<le> 59
         \<and> digits_value (take 2 (drop 17 s)) \<le> 59)"

text \<open>The instant is encoded as the number spelt by the digits \<open>YYYYMMDDHHMMSS\<close>.\<close>

definition time_Parse_ascii :: "string \<Rightarrow> time option" where
  "time_Parse_ascii s =
     (if rfc3339_shape s \<and> rfc3339_ranges s
      then Some (digits_value (filter is_digit s))
      else None)"

fun join_quoted :: "string list \<Rightarrow> string" where
  "join_quoted [] = []"
| "join_quoted [t] = CHR 0x22 # t @ [CHR 0x22]"
| "join_quoted (t # ts) = CHR 0x22 # t @ [CHR 0x22, CHR '',''] @ join_quoted ts"

definition stdlib_ascii :: golib where
  "stdlib_ascii =
     \<lparr>uuid_Parse = uuid_Parse_ascii,
      time_Parse_RFC3339 = time_Parse_ascii,
      Map_unicode_ToLower = (\<lambda>s. s),
      TrimFunc_IsSpace = (\<lambda>s. s),
      TrimRightFunc_IsSpace = (\<lambda>s. s),
      range_runes = map (\<lambda>c. int (byte c)),
      unicode_IsSpace = (\<lambda>r. r \<in> set [9, 10, 11, 12, 13, 32]),
      unicode_IsPunct =
        (\<lambda>r. r \<in> set [33, 34, 35, 37, 38, 39, 40, 41, 42, 44, 45, 46, 47, 58, 59, 63, 64,
                          91, 92, 93, 95, 123, 125]),
      json_Marshal = (\<lambda>tags. ''['' @ join_quoted tags @ '']'')\<rparr>"

definition example_job :: Job where
  "example_job =
     \<lparr>job_ID = ''5864905b-ec8c-4fa6-8ba7-545d13f29b4e'', job_Type = JobTypeImport, Resource = ResourceTypeUsers,
      Status = JobStatusProcessing, IdempotencyKey = None, FilePath = Some ''users.csv'',
      TotalRecords = 1000, ProcessedRecords = 999, SuccessfulRecords = 999, FailedRecords = 0,
      ErrorMessage = None, StartedAt = Some 0, CompletedAt = None, job_CreatedAt = 0\<rparr>"

definition example_job_all_processed :: Job where
  "example_job_all_processed = example_job\<lparr>ProcessedRecords := 1000, SuccessfulRecords := 1000\<rparr>"

definition example_job_overshoot :: Job where
  "example_job_overshoot = example_job\<lparr>ProcessedRecords := 1001, SuccessfulRecords := 1001\<rparr>"

definition example_article :: ArticleImport where
  "example_article =
     \<lparr>ai_ID = ''5864905b-ec8c-4fa6-8ba7-545d13f29b4e'', ai_Slug = ''old-news'',
      ai_Title = ''T'', ai_Body = ''B'', ai_AuthorID = ''11111111-2222-3333-4444-555555555555'',
      ai_Tags = None, ai_PublishedAt = [], ai_Status = ''archived''\<rparr>"

definition example_comment :: CommentImport where
  "example_comment =
     \<lparr>ci_ID = [], ci_ArticleID = ''5864905b-ec8c-4fa6-8ba7-545d13f29b4e'',
      ci_UserID = ''11111111-2222-3333-4444-555555555555'', ci_Body = [], ci_CreatedAt = []\<rparr>"

definition example_article_untitled :: ArticleImport where
  "example_article_untitled = example_article\<lparr>ai_Title := [], ai_Status := ''ARCHIVED''\<rparr>"

definition alice :: User where
  "alice =
     \<lparr>u_ID = ''11111111-2222-3333-4444-555555555555'', u_Email = ''alice@example.com'',
      u_Name = ''Alice'', u_Role = ''admin'', u_Active = True,
      u_CreatedAt = 20240115103000, u_UpdatedAt = 20240115103000\<rparr>"

definition alice_again :: User where
  "alice_again =
     \<lparr>u_ID = ''11111111-2222-3333-4444-555555555555'', u_Email = ''alice@new.example.com'',
      u_Name = ''Alice N.'', u_Role = ''reader'', u_Active = False,
      u_CreatedAt = 0, u_UpdatedAt = 0\<rparr>"

definition bob :: User where
  "bob =
     \<lparr>u_ID = uuid_Nil, u_Email = ''bob@example.com'', u_Name = ''Bob'', u_Role = ''reader'',
      u_Active = False, u_CreatedAt = 20240116090000, u_UpdatedAt = 20240116090000\<rparr>"

definition old_news :: Article where
  "old_news =
     \<lparr>a_ID = ''5864905b-ec8c-4fa6-8ba7-545d13f29b4e'', a_Slug = ''old-news'', a_Title = ''T'',
      a_Body = ''B'', a_AuthorID = ''11111111-2222-3333-4444-555555555555'', a_Tags = Some ''[]'',
      a_PublishedAt = None, a_Status = ''draft'',
      a_CreatedAt = 20240201000000, a_UpdatedAt = 20240201000000\<rparr>"

definition old_news_again :: Article where
  "old_news_again =
     old_news\<lparr>a_Slug := ''fresh-news'', a_Title := ''T2'', a_PublishedAt := Some 20240301000000,
              a_Status := ''published'', a_CreatedAt := 0, a_UpdatedAt := 0\<rparr>"

definition first_comment :: Comment where
  "first_comment =
     \<lparr>c_ID = ''aaaaaaaa-0000-0000-0000-000000000001'',
      c_ArticleID = ''5864905b-ec8c-4fa6-8ba7-545d13f29b4e'',
      c_UserID = ''11111111-2222-3333-4444-555555555555'', c_Body = ''first'',
      c_CreatedAt = 20240202000000, c_UpdatedAt = 20240202000000\<rparr>"

definition first_comment_again :: Comment where
  "first_comment_again = first_comment\<lparr>c_Body := ''edited'', c_CreatedAt := 0\<rparr>"

definition new_year :: time where
  "new_year = 20250101000000"

definition bob_id :: uuid where
  "bob_id = ''bbbbbbbb-0000-0000-0000-000000000002''"

definition users_after :: "User list" where
  "users_after =
     [alice\<lparr>u_Email := ''alice@new.example.com'', u_Name := ''Alice N.'', u_Role := ''reader'',
            u_Active := False, u_UpdatedAt := new_year\<rparr>,
      bob\<lparr>u_ID := bob_id\<rparr>]"

definition articles_after :: "Article list" where
  "articles_after = [old_news_again\<lparr>a_CreatedAt := 20240201000000, a_UpdatedAt := new_year\<rparr>]"

definition comments_after :: "Comment list" where
  "comments_after = [first_comment\<lparr>c_Body := ''edited'', c_UpdatedAt := new_year\<rparr>]"

text \<open>Example staging relations: rows 2 and 4 of job \<open>job_a\<close> repeat the key of row 1; row 5 belongs to another job.\<close>

definition job_a :: uuid where
  "job_a = ''aaaaaaaa-1111-1111-1111-111111111111''"

definition job_b :: uuid where
  "job_b = ''bbbbbbbb-1111-1111-1111-111111111111''"

definition staged_user :: "int \<Rightarrow> uuid \<Rightarrow> string \<Rightarrow> StagingUser" where
  "staged_user sid job email =
     \<lparr>StagingID = sid, st_JobID = job, st_RowNumber = sid + 1, st_ID = None,
      st_ValidationError = None, IsValid = True, IsDuplicate = False, Processed = False,
      su_Email = Some email, su_Name = Some ''N'', su_Role = Some ''reader'', su_Active = None,
      su_CreatedAt = None, su_UpdatedAt = None\<rparr>"

definition staged_article :: "int \<Rightarrow> uuid \<Rightarrow> string \<Rightarrow> StagingArticle" where
  "staged_article sid job slug =
     \<lparr>StagingID = sid, st_JobID = job, st_RowNumber = sid, st_ID = None,
      st_ValidationError = None, IsValid = True, IsDuplicate = False, Processed = False,
      sa_Slug = Some slug, sa_Title = Some ''T'', sa_Body = Some ''B'',
      sa_AuthorID = Some ''11111111-2222-3333-4444-555555555555'', sa_Tags = None,
      sa_PublishedAt = None, sa_Status = Some ''draft''\<rparr>"

definition staged_comment :: "int \<Rightarrow> uuid \<Rightarrow> string option \<Rightarrow> StagingComment" where
  "staged_comment sid job cid =
     \<lparr>StagingID = sid, st_JobID = job, st_RowNumber = sid, st_ID = cid,
      st_ValidationError = None, IsValid = True, IsDuplicate = False, Processed = False,
      sc_ArticleID = Some ''5864905b-ec8c-4fa6-8ba7-545d13f29b4e'',
      sc_UserID = Some ''11111111-2222-3333-4444-555555555555'', sc_Body = Some ''hello'',
      sc_CreatedAt = None\<rparr>"

definition example_staging_users :: "StagingUser list" where
  "example_staging_users =
     [staged_user 1 job_a ''dup@example.com'', staged_user 2 job_a ''dup@example.com'',
      staged_user 3 job_a ''solo@example.com'', staged_user 4 job_a ''DUP@example.com'',
      staged_user 5 job_b ''dup@example.com'']"

definition example_staging_articles :: "StagingArticle list" where
  "example_staging_articles =
     [staged_article 1 job_a ''news'', staged_article 2 job_a ''news'',
      staged_article 3 job_a ''views'', staged_article 4 job_a ''News'',
      staged_article 5 job_b ''news'']"

definition example_staging_comments :: "StagingComment list" where
  "example_staging_comments =
     [staged_comment 1 job_a (Some ''aaaaaaaa-0000-0000-0000-000000000001''),
      staged_comment 2 job_a (Some ''aaaaaaaa-0000-0000-0000-000000000001''),
      staged_comment 3 job_a None, staged_comment 4 job_a None,
      staged_comment 5 job_b (Some ''aaaaaaaa-0000-0000-0000-000000000001'')]"

text \<open>
  A staged user and a staged article that carry a stored id together with the email,
  or the slug, of another stored row; and the article of \<open>example_article\<close> as staged and
  as converted.
\<close>

definition carol :: User where
  "carol =
     \<lparr>u_ID = ''cccccccc-2222-3333-4444-555555555555'', u_Email = ''carol@example.com'',
      u_Name = ''Carol'', u_Role = ''author'', u_Active = True,
      u_CreatedAt = 20240118090000, u_UpdatedAt = 20240118090000\<rparr>"

definition staged_alice_as_carol :: StagingUser where
  "staged_alice_as_carol =
     (staged_user 1 job_a ''carol@example.com'')\<lparr>st_ID := Some ''11111111-2222-3333-4444-555555555555''\<rparr>"

definition alice_as_carol :: User where
  "alice_as_carol =
     \<lparr>u_ID = ''11111111-2222-3333-4444-555555555555'', u_Email = ''carol@example.com'',
      u_Name = ''N'', u_Role = ''reader'', u_Active = True,
      u_CreatedAt = new_year, u_UpdatedAt = new_year\<rparr>"

definition other_news :: Article where
  "other_news = old_news\<lparr>a_ID := ''77777777-ec8c-4fa6-8ba7-545d13f29b4e'', a_Slug := ''other-news''\<rparr>"

definition staged_old_as_other :: StagingArticle where
  "staged_old_as_other =
     (staged_article 1 job_a ''other-news'')\<lparr>st_ID := Some ''5864905b-ec8c-4fa6-8ba7-545d13f29b4e''\<rparr>"

definition old_as_other :: Article where
  "old_as_other =
     \<lparr>a_ID = ''5864905b-ec8c-4fa6-8ba7-545d13f29b4e'', a_Slug = ''other-news'', a_Title = ''T'',
      a_Body = ''B'', a_AuthorID = ''11111111-2222-3333-4444-555555555555'', a_Tags = Some ''[]'',
      a_PublishedAt = None, a_Status = ''draft'', a_CreatedAt = new_year, a_UpdatedAt = new_year\<rparr>"

definition staged_archived :: StagingArticle where
  "staged_archived = (fst (processArticle_row stdlib_ascii job_a 2 (Some example_article)))\<lparr>StagingID := 1\<rparr>"

definition archived_article :: Article where
  "archived_article =
     \<lparr>a_ID = ''5864905b-ec8c-4fa6-8ba7-545d13f29b4e'', a_Slug = ''old-news'', a_Title = ''T'',
      a_Body = ''B'', a_AuthorID = ''11111111-2222-3333-4444-555555555555'', a_Tags = Some ''[]'',
      a_PublishedAt = None, a_Status = ''archived'', a_CreatedAt = new_year, a_UpdatedAt = new_year\<rparr>"

subsection \<open>The surroundings and the data of two imports\<close>
















































section \<open>Properties\<close>

lemmas ErrCode_defs =
  ErrCodeInvalidUUID_def ErrCodeInvalidEmail_def ErrCodeInvalidName_def ErrCodeInvalidRole_def
  ErrCodeInvalidBoolean_def ErrCodeInvalidTimestamp_def ErrCodeMissingField_def
  ErrCodeInvalidSlug_def ErrCodeInvalidTitle_def ErrCodeInvalidAuthor_def ErrCodeInvalidTags_def
  ErrCodeInvalidStatus_def ErrCodeDraftWithPublished_def ErrCodeMissingPublishedAt_def
  ErrCodeInvalidArticle_def ErrCodeInvalidUser_def ErrCodeBodyTooLong_def ErrCodeBodyEmpty_def
  ErrCodeFileParseError_def

subsection \<open>Article status (C7)\<close>

lemma ToLower_Nil [simp]: "ToLower L [] = []"
  by (simp add: ToLower_def)

text \<open>
  \<open>AllowedArticleStatuses\<close> contains \<open>archived\<close>, so \<open>ValidateArticleImport\<close> does not reject
  it: for every article record whose status lower-cases to \<open>archived\<close>, the returned list
  holds no error for the \<open>status\<close> field.
\<close>

lemma ValidateArticleImport_accepts_archived:
  assumes "ToLower L (ai_Status article) = ''archived''"
  shows "\<forall>e \<in> set (ValidateArticleImport L row article). FieldName e \<noteq> ''status''"
proof -
  from assms have ne: "ai_Status article \<noteq> []" by auto
  show ?thesis
    using assms ne
    by (auto simp: ValidateArticleImport_def Let_def NewValidationError_def AllowedArticleStatuses_def
             split: option.splits)
qed

text \<open>
  C7.  The table \<open>articles\<close> takes \<open>draft\<close> and \<open>published\<close> only, and the claim asks the
  validator to reject \<open>archived\<close> for that reason.  The validator does not: the well-formed
  record \<open>example_article\<close> with status \<open>archived\<close> passes validation with no error, is
  staged as a valid row, is selected for promotion and converted, and the batch write
  then breaks the \<open>CHECK\<close> constraint of the table, which fails the statement and with
  it the job.
\<close>

theorem C7_archived_fails_the_batch:
  "ai_Status example_article = ''archived'' \<and>
   ValidateArticleImport stdlib_ascii 2 example_article = [] \<and>
   IsValid staged_archived \<and> sa_Status staged_archived = Some ''archived'' \<and>
   articles_to_promote (map lower_byte) [alice] [] job_a 1000 [staged_archived] = [[staged_archived]] \<and>
   convertStagingToArticle stdlib_ascii new_year bob_id staged_archived = Some archived_article \<and>
   ArticleRepository_CreateBatch new_year [] [alice] [] [archived_article] = Inl CheckViolation"
  by code_simp

subsection \<open>Progress percentage (C8)\<close>

text \<open>
  C8 (as found in the code).  For every job whose status is neither completed nor failed,
  the percentage returned by \<open>CalculateProgress\<close> is strictly below 100, whatever the
  counters are: a computed value of 100 or more is replaced by 99, a smaller one is
  returned as it was computed.
\<close>

theorem C8_percentage_below_100:
  assumes "Status j \<noteq> JobStatusCompleted" and "Status j \<noteq> JobStatusFailed"
  shows "Percentage (CalculateProgress j) < 100
         \<and> Percentage (CalculateProgress j)
             = (if computed_percentage j \<ge> 100 then 99 else computed_percentage j)"
  using assms by (simp add: CalculateProgress_def computed_percentage_def Let_def)

text \<open>
  Three processing jobs of 1000 records: with 1000 and with 1001 records processed the
  computed value is 100 and more, and 99 is reported; with 999 the computed value lies
  between 99 and 100 and is reported as it is.
\<close>

theorem C8_percentage_below_100_witness:
  "Status example_job_all_processed \<noteq> JobStatusCompleted \<and>
   Status example_job_all_processed \<noteq> JobStatusFailed \<and>
   computed_percentage example_job_all_processed = 100 \<and>
   Percentage (CalculateProgress example_job_all_processed) = 99 \<and>
   Status example_job_overshoot \<noteq> JobStatusCompleted \<and>
   Status example_job_overshoot \<noteq> JobStatusFailed \<and>
   100 < computed_percentage example_job_overshoot \<and>
   Percentage (CalculateProgress example_job_overshoot) = 99 \<and>
   Status example_job \<noteq> JobStatusCompleted \<and> Status example_job \<noteq> JobStatusFailed \<and>
   99 < computed_percentage example_job \<and> computed_percentage example_job < 100 \<and>
   Percentage (CalculateProgress example_job) = computed_percentage example_job"
proof -
  have a1: "Status example_job_all_processed \<noteq> JobStatusCompleted" by code_simp
  have b1: "Status example_job_all_processed \<noteq> JobStatusFailed" by code_simp
  have c1: "computed_percentage example_job_all_processed = 100" by code_simp
  have a2: "Status example_job_overshoot \<noteq> JobStatusCompleted" by code_simp
  have b2: "Status example_job_overshoot \<noteq> JobStatusFailed" by code_simp
  have c2: "100 < computed_percentage example_job_overshoot" by code_simp
  have a3: "Status example_job \<noteq> JobStatusCompleted" by code_simp
  have b3: "Status example_job \<noteq> JobStatusFailed" by code_simp
  have c3: "99 < computed_percentage example_job" by code_simp
  have d3: "computed_percentage example_job < 100" by code_simp
  have p1: "Percentage (CalculateProgress example_job_all_processed) = 99"
    using C8_percentage_below_100 [OF a1 b1] c1 by simp
  have p2: "Percentage (CalculateProgress example_job_overshoot) = 99"
    using C8_percentage_below_100 [OF a2 b2] c2 by simp
  have p3: "Percentage (CalculateProgress example_job) = computed_percentage example_job"
    using C8_percentage_below_100 [OF a3 b3] d3 by simp
  from a1 b1 c1 p1 a2 b2 c2 p2 a3 b3 c3 d3 p3 show ?thesis by (intro conjI)
qed

text \<open>
  The bound 99 of the claim does not hold: a processing job with 999 of 1000 records
  processed reports \<open>99.9\<close> (the double nearest to it).
\<close>

theorem C8_percentage_counterexample:
  "Status example_job \<noteq> JobStatusCompleted \<and> Status example_job \<noteq> JobStatusFailed \<and>
   \<not> Percentage (CalculateProgress example_job) \<le> 99"
  by code_simp

subsection \<open>Record identifier of comments without id (C10)\<close>

lemma byte_char_of_int: "byte (char_of (a::int)) = nat (a mod 256)"
proof -
  have "int (of_char (char_of a :: char)) = of_char (char_of a :: char)"
    by (rule of_nat_of_char)
  also have "\<dots> = a mod 256" by (rule of_char_of)
  finally show ?thesis by (simp add: byte_def)
qed

lemma byte_char_of_nat: "byte (char_of (a::nat)) = a mod 256"
  by (simp add: byte_def)

lemma digits_nonempty: "digits n \<noteq> []"
  by (subst digits.simps) simp

lemma digits_hd: "byte (hd (digits n)) < 64"
proof (induction n rule: digits.induct)
  case (1 n)
  show ?case
  proof (cases "n < 10")
    case True
    then show ?thesis by (subst digits.simps) (simp add: byte_char_of_nat)
  next
    case False
    with 1 show ?thesis by (subst digits.simps) (simp add: digits_nonempty)
  qed
qed

lemma digits_length1: "length (digits n) = Suc 0 \<Longrightarrow> n < 10"
  by (subst (asm) digits.simps) (auto simp: digits_nonempty split: if_splits)

lemma digits_small: "n < 10 \<Longrightarrow> digits n = [char_of (48 + n)]"
  by (subst digits.simps) simp

lemma Itoa_hd: "byte (hd (Itoa n)) < 64"
  using digits_hd by (simp add: Itoa_def byte_def)

lemma Itoa_length1:
  assumes "length (Itoa n) = Suc 0"
  shows "0 \<le> n \<and> n < 10 \<and> byte (hd (Itoa n)) = nat n + 48"
proof (cases "n < 0")
  case True
  with assms show ?thesis by (simp add: Itoa_def digits_nonempty)
next
  case False
  with assms have "nat n < 10" by (auto simp: Itoa_def dest: digits_length1)
  with False show ?thesis
    by (simp add: Itoa_def digits_small byte_char_of_nat)
qed

lemma utf8_bytes_hd: "128 \<le> r \<Longrightarrow> r \<le> 1114111 \<Longrightarrow> 192 \<le> byte (hd (utf8_bytes r))"
  by (auto simp: utf8_bytes_def byte_char_of_int)

lemma utf8_bytes_small: "0 \<le> r \<Longrightarrow> r < 128 \<Longrightarrow> utf8_bytes r = [char_of r] \<and> byte (char_of r) = nat r"
  by (auto simp: utf8_bytes_def byte_char_of_int)

lemma string_of_rune_cases:
  "(0 \<le> r \<and> r < 128 \<and> string_of_rune r = [char_of r]) \<or> 192 \<le> byte (hd (string_of_rune r))"
proof (cases "valid_code_point r")
  case True
  then show ?thesis
    using utf8_bytes_hd [of r] utf8_bytes_small [of r]
    by (cases "r < 128") (auto simp: string_of_rune_def valid_code_point_def)
next
  case False
  then show ?thesis
    using utf8_bytes_hd [of RuneError] by (simp add: string_of_rune_def RuneError_def)
qed

lemma rune_small: "0 \<le> n \<Longrightarrow> n < 2147483648 \<Longrightarrow> rune n = n"
  by (simp add: rune_def)

lemma rune_valid: "valid_code_point n \<Longrightarrow> rune n = n"
  by (simp add: rune_def valid_code_point_def)

lemma string_of_rune_not_Itoa: "string_of_rune (rune row) \<noteq> Itoa row"
proof
  assume eq: "string_of_rune (rune row) = Itoa row"
  from string_of_rune_cases [of "rune row"] show False
  proof
    assume a: "0 \<le> rune row \<and> rune row < 128 \<and> string_of_rune (rune row) = [char_of (rune row)]"
    then have "length (string_of_rune (rune row)) = Suc 0" by simp
    with eq have len: "length (Itoa row) = Suc 0" by simp
    from Itoa_length1 [OF len] have r: "0 \<le> row" "row < 10" "byte (hd (Itoa row)) = nat row + 48"
      by auto
    then have "rune row = row" by (simp add: rune_small)
    with a have "string_of_rune (rune row) = [char_of row]" by simp
    with eq have "byte (hd (Itoa row)) = byte (char_of row)" by (metis list.sel(1))
    then have "byte (hd (Itoa row)) = nat row"
      using utf8_bytes_small [of row] r by simp
    with r show False by simp
  next
    assume "192 \<le> byte (hd (string_of_rune (rune row)))"
    with eq Itoa_hd [of row] show False by simp
  qed
qed



text \<open>
  C10 (as found in the code).  When the comment's id is empty, every error returned by
  \<open>ValidateCommentImport\<close> carries the identifier \<open>"row-" + string(rune(row))\<close>.  That is
  \<open>row-\<close> followed by the UTF-8 encoding of the single character whose code point is the
  row number if the row number is a valid code point; if the row number, cut to 32 bits,
  is not a valid code point (a surrogate half, or above \<open>0x10FFFF\<close>) it is \<open>row-\<close> followed
  by U+FFFD.  In no case is it \<open>row-\<close> followed by the decimal representation of the row.
\<close>

theorem C10_comment_identifier:
  assumes "ci_ID comment = []"
  shows "\<forall>e \<in> set (ValidateCommentImport L row comment).
           RecordIdentifier e = ''row-'' @ string_of_rune (rune row)
           \<and> (valid_code_point row \<longrightarrow> string_of_rune (rune row) = utf8_bytes row)
           \<and> (\<not> valid_code_point (rune row) \<longrightarrow> string_of_rune (rune row) = utf8_bytes RuneError)
           \<and> RecordIdentifier e \<noteq> ''row-'' @ Itoa row"
proof -
  have ident: "\<forall>e \<in> set (ValidateCommentImport L row comment).
                 RecordIdentifier e = ''row-'' @ string_of_rune (rune row)"
    using assms by (auto simp: ValidateCommentImport_def Let_def NewValidationError_def)
  have a: "valid_code_point row \<longrightarrow> string_of_rune (rune row) = utf8_bytes row"
    by (simp add: rune_valid string_of_rune_def)
  have b: "\<not> valid_code_point (rune row) \<longrightarrow> string_of_rune (rune row) = utf8_bytes RuneError"
    by (simp add: string_of_rune_def)
  from ident a b string_of_rune_not_Itoa [of row] show ?thesis by simp
qed

theorem C10_comment_identifier_witness:
  "ci_ID example_comment = [] \<and>
   ValidateCommentImport stdlib_ascii 65 example_comment \<noteq> [] \<and>
   valid_code_point 65 \<and>
   RecordIdentifier (hd (ValidateCommentImport stdlib_ascii 65 example_comment))
     = ''row-'' @ utf8_bytes 65 \<and>
   utf8_bytes 65 = ''A'' \<and>
   RecordIdentifier (hd (ValidateCommentImport stdlib_ascii 65 example_comment))
     \<noteq> ''row-'' @ Itoa 65"
proof -
  have h: "ci_ID example_comment = []" by (simp add: example_comment_def)
  have ne: "ValidateCommentImport stdlib_ascii 65 example_comment \<noteq> []" by code_simp
  then have mem: "hd (ValidateCommentImport stdlib_ascii 65 example_comment)
                    \<in> set (ValidateCommentImport stdlib_ascii 65 example_comment)" by simp
  have v: "valid_code_point 65" by (simp add: valid_code_point_def)
  have u: "utf8_bytes 65 = ''A''" by code_simp
  from C10_comment_identifier [OF h, of stdlib_ascii 65] mem
  have all: "RecordIdentifier (hd (ValidateCommentImport stdlib_ascii 65 example_comment))
          = ''row-'' @ string_of_rune (rune 65)
        \<and> (valid_code_point 65 \<longrightarrow> string_of_rune (rune 65) = utf8_bytes 65)
        \<and> RecordIdentifier (hd (ValidateCommentImport stdlib_ascii 65 example_comment))
          \<noteq> ''row-'' @ Itoa 65"
    by blast
  from all v have s: "string_of_rune (rune 65) = utf8_bytes 65" by blast
  from all have a: "RecordIdentifier (hd (ValidateCommentImport stdlib_ascii 65 example_comment))
          = ''row-'' @ string_of_rune (rune 65)" by blast
  from a s have a': "RecordIdentifier (hd (ValidateCommentImport stdlib_ascii 65 example_comment))
          = ''row-'' @ utf8_bytes 65" by (simp only:)
  from all have c: "RecordIdentifier (hd (ValidateCommentImport stdlib_ascii 65 example_comment))
          \<noteq> ''row-'' @ Itoa 65" by blast
  from h ne v a' u c show ?thesis by (intro conjI)
qed

text \<open>
  At row 55296 (\<open>0xD800\<close>, a surrogate half) the identifier is \<open>row-\<close> followed by U+FFFD, not
  by a character with code point 55296.
\<close>

theorem C10_comment_identifier_counterexample:
  "ci_ID example_comment = [] \<and>
   map RecordIdentifier (ValidateCommentImport stdlib_ascii 55296 example_comment)
     = [''row-'' @ utf8_bytes 65533] \<and>
   utf8_bytes 65533 \<noteq> utf8_bytes 55296"
  by code_simp

subsection \<open>The batch write is an upsert keyed on the id (C1)\<close>

lemma find_map_other:
  assumes "\<And>r. pk r = j \<Longrightarrow> pk (f r) = j" and "k \<noteq> j"
  shows "find (\<lambda>r. pk r = k) (map (\<lambda>r. if pk r = j then f r else r) tbl) = find (\<lambda>r. pk r = k) tbl"
  using assms by (induction tbl) auto

lemma find_map_same:
  assumes "find (\<lambda>r. pk r = j) tbl = Some old" and "pk n = j"
  shows "find (\<lambda>r. pk r = j) (map (\<lambda>r. if pk r = j then n else r) tbl) = Some n"
  using assms by (induction tbl) (auto split: if_splits)

lemma find_append_other:
  "pk x \<noteq> k \<Longrightarrow> find (\<lambda>r. pk r = k) (tbl @ [x]) = find (\<lambda>r. pk r = k) tbl"
  by (induction tbl) auto

lemma find_append_new:
  "find (\<lambda>r. pk r = pk x) tbl = None \<Longrightarrow> find (\<lambda>r. pk r = pk x) (tbl @ [x]) = Some x"
  by (induction tbl) (auto split: if_splits)

lemma find_pk_image: "(find (\<lambda>r. pk r = k) tbl = None) = (k \<notin> pk ` set tbl)"
  by (auto simp: find_None_iff)

lemma insert_on_conflict_id_count:
  "insert_on_conflict_id pk upd chk tbl w xs = Inr (n, tbl') \<Longrightarrow> n = length w + length xs"
  by (induction xs arbitrary: tbl w) (fastforce split: option.splits if_splits)+

lemma pk_image_update:
  assumes "old \<in> set tbl" and "pk old = j" and "pk n = j"
  shows "pk ` set (map (\<lambda>r. if pk r = j then n else r) tbl) = pk ` set tbl"
proof -
  have "map pk (map (\<lambda>r. if pk r = j then n else r) tbl) = map pk tbl"
    using assms(3) by (induction tbl) auto
  then have "set (map pk (map (\<lambda>r. if pk r = j then n else r) tbl)) = set (map pk tbl)" by simp
  then show ?thesis by (simp only: set_map)
qed

lemma insert_on_conflict_id_fresh:
  assumes "insert_on_conflict_id pk upd chk tbl w xs = Inr (n, tbl')"
    and "\<And>old x. pk (upd old x) = pk old"
    and "set w \<subseteq> pk ` set tbl"
  shows "pk ` set xs \<inter> set w = {}"
  using assms
proof (induction xs arbitrary: tbl w)
  case Nil
  then show ?case by simp
next
  case (Cons x xs)
  show ?case
  proof (cases "find (\<lambda>r. pk r = pk x) tbl")
    case None
    with Cons.prems(1) obtain
      run: "insert_on_conflict_id pk upd chk (tbl @ [x]) (pk x # w) xs = Inr (n, tbl')"
      by (auto split: option.splits)
    from None have nx: "pk x \<notin> pk ` set tbl" by (simp add: find_pk_image)
    with Cons.prems(3) have "pk x \<notin> set w" by auto
    moreover have "set (pk x # w) \<subseteq> pk ` set (tbl @ [x])" using Cons.prems(3) by auto
    from Cons.IH [OF run Cons.prems(2) this] have "pk ` set xs \<inter> set (pk x # w) = {}" .
    ultimately show ?thesis by auto
  next
    case (Some old)
    let ?tbl1 = "map (\<lambda>r. if pk r = pk x then upd old x else r) tbl"
    from Some Cons.prems(1) obtain nw: "pk x \<notin> set w"
      and run: "insert_on_conflict_id pk upd chk ?tbl1 (pk x # w) xs = Inr (n, tbl')"
      by (auto split: option.splits if_splits)
    from Some have old: "old \<in> set tbl" "pk old = pk x" by (auto simp: find_Some_iff)
    have img: "pk ` set ?tbl1 = pk ` set tbl"
      using old Cons.prems(2) by (intro pk_image_update [of old]) simp_all
    from old have "pk x \<in> pk ` set tbl" by (metis imageI)
    with Cons.prems(3) have "set (pk x # w) \<subseteq> pk ` set tbl" by simp
    with img have "set (pk x # w) \<subseteq> pk ` set ?tbl1" by (simp only:)
    from Cons.IH [OF run Cons.prems(2) this] have "pk ` set xs \<inter> set (pk x # w) = {}" .
    with nw show ?thesis by auto
  qed
qed


lemma insert_on_conflict_id_others:
  assumes "insert_on_conflict_id pk upd chk tbl w xs = Inr (n, tbl')"
    and "\<And>old x. pk (upd old x) = pk old"
    and "k \<notin> pk ` set xs"
  shows "find (\<lambda>r. pk r = k) tbl' = find (\<lambda>r. pk r = k) tbl"
  using assms
proof (induction xs arbitrary: tbl w)
  case Nil
  then show ?case by simp
next
  case (Cons x xs)
  from Cons.prems(3) have kx: "k \<noteq> pk x" and kxs: "k \<notin> pk ` set xs" by auto
  show ?case
  proof (cases "find (\<lambda>r. pk r = pk x) tbl")
    case None
    with Cons.prems(1) have
      run: "insert_on_conflict_id pk upd chk (tbl @ [x]) (pk x # w) xs = Inr (n, tbl')"
      by (auto split: option.splits)
    from Cons.IH [OF run Cons.prems(2) kxs] kx show ?thesis
      by (simp add: find_append_other)
  next
    case (Some old)
    let ?tbl1 = "map (\<lambda>r. if pk r = pk x then upd old x else r) tbl"
    from Some Cons.prems(1) have
      run: "insert_on_conflict_id pk upd chk ?tbl1 (pk x # w) xs = Inr (n, tbl')"
      by (auto split: option.splits if_splits)
    from Some have old: "pk old = pk x" by (auto simp: find_Some_iff)
    have "find (\<lambda>r. pk r = k) ?tbl1 = find (\<lambda>r. pk r = k) tbl"
      using kx old Cons.prems(2) by (intro find_map_other) simp_all
    with Cons.IH [OF run Cons.prems(2) kxs] show ?thesis by simp
  qed
qed

lemma insert_on_conflict_id_written:
  assumes "insert_on_conflict_id pk upd chk tbl w xs = Inr (n, tbl')"
    and "\<And>old x. pk (upd old x) = pk old"
    and "set w \<subseteq> pk ` set tbl"
    and "x \<in> set xs"
  shows "find (\<lambda>r. pk r = pk x) tbl'
           = Some (case find (\<lambda>r. pk r = pk x) tbl of None \<Rightarrow> x | Some old \<Rightarrow> upd old x)"
  using assms
proof (induction xs arbitrary: tbl w)
  case Nil
  then show ?case by simp
next
  case (Cons y ys)
  from insert_on_conflict_id_fresh [OF Cons.prems(1) Cons.prems(2) Cons.prems(3)]
  have fresh: "pk ` set (y # ys) \<inter> set w = {}" .
  show ?case
  proof (cases "find (\<lambda>r. pk r = pk y) tbl")
    case None
    let ?tbl1 = "tbl @ [y]"
    from None Cons.prems(1) have
      run: "insert_on_conflict_id pk upd chk ?tbl1 (pk y # w) ys = Inr (n, tbl')"
      by (auto split: option.splits)
    have sub: "set (pk y # w) \<subseteq> pk ` set ?tbl1" using Cons.prems(3) by auto
    from insert_on_conflict_id_fresh [OF run Cons.prems(2) sub]
    have ny: "pk y \<notin> pk ` set ys" by auto
    show ?thesis
    proof (cases "x \<in> set ys")
      case True
      with ny have ne: "pk y \<noteq> pk x" by (metis imageI)
      from Cons.IH [OF run Cons.prems(2) sub True] ne show ?thesis
        by (simp add: find_append_other)
    next
      case False
      with Cons.prems(4) have xy: "x = y" by simp
      from insert_on_conflict_id_others [OF run Cons.prems(2) ny]
      have "find (\<lambda>r. pk r = pk y) tbl' = find (\<lambda>r. pk r = pk y) ?tbl1" .
      with None xy show ?thesis by (simp add: find_append_new)
    qed
  next
    case (Some old)
    let ?tbl1 = "map (\<lambda>r. if pk r = pk y then upd old y else r) tbl"
    from Some Cons.prems(1) have
      run: "insert_on_conflict_id pk upd chk ?tbl1 (pk y # w) ys = Inr (n, tbl')"
      by (auto split: option.splits if_splits)
    from Some have old: "old \<in> set tbl" "pk old = pk y" by (auto simp: find_Some_iff)
    have img: "pk ` set ?tbl1 = pk ` set tbl"
      using old Cons.prems(2) by (intro pk_image_update [of old]) simp_all
    from old have "pk y \<in> pk ` set tbl" by (metis imageI)
    with Cons.prems(3) have "set (pk y # w) \<subseteq> pk ` set tbl" by simp
    with img have sub: "set (pk y # w) \<subseteq> pk ` set ?tbl1" by (simp only:)
    from insert_on_conflict_id_fresh [OF run Cons.prems(2) sub]
    have ny: "pk y \<notin> pk ` set ys" by auto
    have same: "find (\<lambda>r. pk r = pk y) ?tbl1 = Some (upd old y)"
      using Some old Cons.prems(2) by (intro find_map_same [of pk "pk y" tbl old]) simp_all
    show ?thesis
    proof (cases "x \<in> set ys")
      case True
      with ny have ne: "pk x \<noteq> pk y" by (metis imageI)
      have "find (\<lambda>r. pk r = pk x) ?tbl1 = find (\<lambda>r. pk r = pk x) tbl"
        using ne old Cons.prems(2) by (intro find_map_other) simp_all
      with Cons.IH [OF run Cons.prems(2) sub True] show ?thesis by simp
    next
      case False
      with Cons.prems(4) have xy: "x = y" by simp
      from insert_on_conflict_id_others [OF run Cons.prems(2) ny]
      have "find (\<lambda>r. pk r = pk y) tbl' = find (\<lambda>r. pk r = pk y) ?tbl1" .
      with same Some xy show ?thesis by simp
    qed
  qed
qed

lemma insert_on_conflict_id_upsert:
  assumes "insert_on_conflict_id pk upd chk tbl [] xs = Inr (n, tbl')"
    and "\<And>old x. pk (upd old x) = pk old"
  shows "n = length xs \<and> upsert_keyed_on_id pk upd tbl xs tbl'"
proof -
  have n: "n = length xs" using insert_on_conflict_id_count [OF assms(1)] by simp
  have e: "set [] \<subseteq> pk ` set tbl" by simp
  have a: "find (\<lambda>r. pk r = pk x) tbl'
             = Some (case find (\<lambda>r. pk r = pk x) tbl of None \<Rightarrow> x | Some old \<Rightarrow> upd old x)"
    if "x \<in> set xs" for x
    by (rule insert_on_conflict_id_written [OF assms(1) assms(2) e that])
  have b: "find (\<lambda>r. pk r = k) tbl' = find (\<lambda>r. pk r = k) tbl" if "k \<notin> pk ` set xs" for k
    by (rule insert_on_conflict_id_others [OF assms(1) assms(2) that])
  show ?thesis unfolding upsert_keyed_on_id_def
  proof (intro conjI ballI allI impI)
    show "n = length xs" by (rule n)
  next
    fix x assume "x \<in> set xs"
    then show "find (\<lambda>r. pk r = pk x) tbl'
             = Some (case find (\<lambda>r. pk r = pk x) tbl of None \<Rightarrow> x | Some old \<Rightarrow> upd old x)"
      by (rule a)
  next
    fix k assume "k \<notin> pk ` set xs"
    then show "find (\<lambda>r. pk r = k) tbl' = find (\<lambda>r. pk r = k) tbl" by (rule b)
  qed
qed

lemma upsert_keyed_on_id_Nil: "upsert_keyed_on_id pk upd tbl [] tbl"
  by (simp add: upsert_keyed_on_id_def)

lemma length_fill_user_defaults [simp]: "length (fill_user_defaults now fresh us) = length us"
  by (induction us arbitrary: fresh) (simp_all add: Let_def case_prod_beta)

lemma length_fill_article_defaults [simp]: "length (fill_article_defaults now fresh xs) = length xs"
  by (induction xs arbitrary: fresh) (simp_all add: Let_def case_prod_beta)

lemma length_fill_comment_defaults [simp]: "length (fill_comment_defaults now fresh xs) = length xs"
  by (induction xs arbitrary: fresh) (simp_all add: Let_def case_prod_beta)

lemma UserRepository_CreateBatch_upsert:
  assumes "UserRepository_CreateBatch now fresh tbl users = Inr (n, tbl')"
  shows "n = length users
         \<and> upsert_keyed_on_id u_ID (users_on_conflict now) tbl (fill_user_defaults now fresh users) tbl'"
proof (cases "users = []")
  case True
  with assms show ?thesis by (simp add: UserRepository_CreateBatch_def upsert_keyed_on_id_Nil)
next
  case False
  with assms have "insert_on_conflict_id u_ID (users_on_conflict now) users_constraints tbl []
                     (fill_user_defaults now fresh users) = Inr (n, tbl')"
    by (simp add: UserRepository_CreateBatch_def)
  from insert_on_conflict_id_upsert [OF this] show ?thesis by (simp add: users_on_conflict_def)
qed

lemma ArticleRepository_CreateBatch_upsert:
  assumes "ArticleRepository_CreateBatch now fresh users tbl articles = Inr (n, tbl')"
  shows "n = length articles
         \<and> upsert_keyed_on_id a_ID (articles_on_conflict now) tbl
             (fill_article_defaults now fresh articles) tbl'"
proof (cases "articles = []")
  case True
  with assms show ?thesis by (simp add: ArticleRepository_CreateBatch_def upsert_keyed_on_id_Nil)
next
  case False
  with assms have "insert_on_conflict_id a_ID (articles_on_conflict now) (articles_constraints users)
                     tbl [] (fill_article_defaults now fresh articles) = Inr (n, tbl')"
    by (simp add: ArticleRepository_CreateBatch_def)
  from insert_on_conflict_id_upsert [OF this] show ?thesis by (simp add: articles_on_conflict_def)
qed

lemma CommentRepository_CreateBatch_upsert:
  assumes "CommentRepository_CreateBatch now fresh users articles tbl comments = Inr (n, tbl')"
  shows "n = length comments
         \<and> upsert_keyed_on_id c_ID (comments_on_conflict now) tbl
             (fill_comment_defaults now fresh comments) tbl'"
proof (cases "comments = []")
  case True
  with assms show ?thesis by (simp add: CommentRepository_CreateBatch_def upsert_keyed_on_id_Nil)
next
  case False
  with assms have "insert_on_conflict_id c_ID (comments_on_conflict now)
                     (comments_constraints users articles) tbl []
                     (fill_comment_defaults now fresh comments) = Inr (n, tbl')"
    by (simp add: CommentRepository_CreateBatch_def)
  from insert_on_conflict_id_upsert [OF this] show ?thesis by (simp add: comments_on_conflict_def)
qed


text \<open>
  The statement goes through exactly when the batch is accepted.  The proof follows the
  statement row by row and keeps \<open>tracks\<close> between the relation it has reached and the
  relation it started from.
\<close>

lemma tracks_start: "tracks pk clash tbl [] tbl"
  by (simp add: tracks_def)

lemma tracks_clash:
  assumes "tracks pk clash tbl earlier cur" and "pk x \<notin> pk ` set earlier"
  shows "(\<exists>q \<in> set cur. pk q \<noteq> pk x \<and> clash q x)
           = ((\<exists>d \<in> set earlier. clash d x)
              \<or> (\<exists>r \<in> set tbl. pk r \<noteq> pk x \<and> pk r \<notin> pk ` set earlier \<and> clash r x))"
proof
  assume "\<exists>q \<in> set cur. pk q \<noteq> pk x \<and> clash q x"
  then obtain q where q: "q \<in> set cur" "pk q \<noteq> pk x" "clash q x" by blast
  show "(\<exists>d \<in> set earlier. clash d x)
          \<or> (\<exists>r \<in> set tbl. pk r \<noteq> pk x \<and> pk r \<notin> pk ` set earlier \<and> clash r x)"
  proof (cases "pk q \<in> pk ` set earlier")
    case True
    with assms(1) q(1) obtain d where "d \<in> set earlier" "\<forall>y. clash q y = clash d y"
      unfolding tracks_def by blast
    with q(3) show ?thesis by blast
  next
    case False
    with assms(1) q(1) have "q \<in> set tbl" unfolding tracks_def by blast
    with False q show ?thesis by blast
  qed
next
  assume "(\<exists>d \<in> set earlier. clash d x)
            \<or> (\<exists>r \<in> set tbl. pk r \<noteq> pk x \<and> pk r \<notin> pk ` set earlier \<and> clash r x)"
  then show "\<exists>q \<in> set cur. pk q \<noteq> pk x \<and> clash q x"
  proof
    assume "\<exists>d \<in> set earlier. clash d x"
    then obtain d where d: "d \<in> set earlier" "clash d x" by blast
    with assms(1) obtain r where r: "r \<in> set cur" "pk r = pk d" "\<forall>y. clash r y = clash d y"
      unfolding tracks_def by blast
    from d(1) assms(2) have "pk d \<noteq> pk x" by (metis imageI)
    with r d(2) have "pk r \<noteq> pk x \<and> clash r x" by simp
    with r(1) show ?thesis by blast
  next
    assume "\<exists>r \<in> set tbl. pk r \<noteq> pk x \<and> pk r \<notin> pk ` set earlier \<and> clash r x"
    then obtain r where r: "r \<in> set tbl" "pk r \<noteq> pk x" "pk r \<notin> pk ` set earlier" "clash r x"
      by blast
    with assms(1) have "r \<in> set cur" unfolding tracks_def by blast
    with r show ?thesis by blast
  qed
qed

lemma tracks_ids:
  assumes "tracks pk clash tbl earlier cur"
  shows "pk ` set earlier \<subseteq> pk ` set cur"
proof
  fix k assume "k \<in> pk ` set earlier"
  then obtain d where "d \<in> set earlier" "k = pk d" by blast
  with assms obtain r where "r \<in> set cur" "pk r = pk d" unfolding tracks_def by blast
  with \<open>k = pk d\<close> show "k \<in> pk ` set cur" by (metis imageI)
qed

lemma tracks_insert:
  assumes "tracks pk clash tbl earlier cur" and "pk x \<notin> pk ` set cur"
  shows "tracks pk clash tbl (x # earlier) (cur @ [x])"
proof -
  have nx: "pk x \<notin> pk ` set earlier" using tracks_ids [OF assms(1)] assms(2) by blast
  have a: "\<exists>d \<in> set (x # earlier). pk d = pk r \<and> (\<forall>y. clash r y = clash d y)"
    if "r \<in> set (cur @ [x])" "pk r \<in> pk ` set (x # earlier)" for r
  proof (cases "r = x")
    case True
    then show ?thesis by simp
  next
    case False
    with that(1) have rc: "r \<in> set cur" by simp
    then have "pk r \<noteq> pk x" using assms(2) by (metis imageI)
    with that(2) have "pk r \<in> pk ` set earlier" by auto
    with assms(1) rc obtain d where "d \<in> set earlier" "pk d = pk r" "\<forall>y. clash r y = clash d y"
      unfolding tracks_def by blast
    then show ?thesis by auto
  qed
  have b: "r \<in> set tbl" if "r \<in> set (cur @ [x])" "pk r \<notin> pk ` set (x # earlier)" for r
  proof -
    from that(2) have "pk r \<noteq> pk x" "pk r \<notin> pk ` set earlier" by auto
    with that(1) have "r \<in> set cur" by auto
    with assms(1) \<open>pk r \<notin> pk ` set earlier\<close> show ?thesis unfolding tracks_def by blast
  qed
  have c: "r \<in> set (cur @ [x])" if "r \<in> set tbl" "pk r \<notin> pk ` set (x # earlier)" for r
  proof -
    from that(2) have "pk r \<notin> pk ` set earlier" by auto
    with assms(1) that(1) have "r \<in> set cur" unfolding tracks_def by blast
    then show ?thesis by simp
  qed
  have d: "\<exists>r \<in> set (cur @ [x]). pk r = pk d \<and> (\<forall>y. clash r y = clash d y)"
    if "d \<in> set (x # earlier)" for d
  proof (cases "d = x")
    case True
    then show ?thesis by simp
  next
    case False
    with that have "d \<in> set earlier" by simp
    with assms(1) obtain r where "r \<in> set cur" "pk r = pk d" "\<forall>y. clash r y = clash d y"
      unfolding tracks_def by blast
    then show ?thesis by auto
  qed
  show ?thesis unfolding tracks_def using a b c d by blast
qed

lemma tracks_update:
  assumes tr: "tracks pk clash tbl earlier cur"
      and old: "old \<in> set cur" "pk old = pk x"
      and nx: "pk x \<notin> pk ` set earlier"
      and pk_new: "pk new = pk x"
      and clash_new: "\<And>y. clash new y = clash x y"
  shows "tracks pk clash tbl (x # earlier) (map (\<lambda>r. if pk r = pk x then new else r) cur)"
proof -
  let ?cur = "map (\<lambda>r. if pk r = pk x then new else r) cur"
  have mem: "r \<in> set ?cur \<longleftrightarrow> (r = new \<or> (r \<in> set cur \<and> pk r \<noteq> pk x))" for r
    using old pk_new by (auto simp: image_iff)
  have a: "\<exists>d \<in> set (x # earlier). pk d = pk r \<and> (\<forall>y. clash r y = clash d y)"
    if "r \<in> set ?cur" "pk r \<in> pk ` set (x # earlier)" for r
  proof (cases "r = new")
    case True
    then show ?thesis using pk_new clash_new by simp
  next
    case False
    with that(1) mem [of r] have rc: "r \<in> set cur" "pk r \<noteq> pk x" by blast+
    with that(2) have "pk r \<in> pk ` set earlier" by auto
    with tr rc(1) obtain d where "d \<in> set earlier" "pk d = pk r" "\<forall>y. clash r y = clash d y"
      unfolding tracks_def by blast
    then show ?thesis by auto
  qed
  have b: "r \<in> set tbl" if "r \<in> set ?cur" "pk r \<notin> pk ` set (x # earlier)" for r
  proof -
    from that(2) have ne: "pk r \<noteq> pk x" "pk r \<notin> pk ` set earlier" by auto
    with that(1) pk_new mem [of r] have "r \<in> set cur" by blast
    with tr ne(2) show ?thesis unfolding tracks_def by blast
  qed
  have c: "r \<in> set ?cur" if "r \<in> set tbl" "pk r \<notin> pk ` set (x # earlier)" for r
  proof -
    from that(2) have ne: "pk r \<noteq> pk x" "pk r \<notin> pk ` set earlier" by auto
    with tr that(1) have "r \<in> set cur" unfolding tracks_def by blast
    with ne(1) mem [of r] show ?thesis by blast
  qed
  have d: "\<exists>r \<in> set ?cur. pk r = pk d \<and> (\<forall>y. clash r y = clash d y)"
    if "d \<in> set (x # earlier)" for d
  proof (cases "d = x")
    case True
    have "new \<in> set ?cur" using mem [of new] by blast
    with True pk_new clash_new show ?thesis by blast
  next
    case False
    with that have de: "d \<in> set earlier" by simp
    with tr obtain r where r: "r \<in> set cur" "pk r = pk d" "\<forall>y. clash r y = clash d y"
      unfolding tracks_def by blast
    from de nx have "pk d \<noteq> pk x" by (metis imageI)
    with r mem [of r] have "r \<in> set ?cur" by metis
    with r show ?thesis by blast
  qed
  show ?thesis unfolding tracks_def using a b c d by blast
qed

lemma insert_on_conflict_id_accepted:
  assumes chk: "\<And>others r. (chk others r = None) = (ok r \<and> \<not> list_ex (\<lambda>q. clash q r) others)"
      and pk_upd: "\<And>old x. pk (upd old x) = pk old"
      and ok_upd: "\<And>old x. ok (upd old x) = ok x"
      and clash_upd: "\<And>old x q. clash q (upd old x) = clash q x"
      and upd_clash: "\<And>old x y. clash (upd old x) y = clash x y"
  shows "set w = pk ` set earlier \<Longrightarrow> tracks pk clash tbl earlier cur
     \<Longrightarrow> (\<exists>n tbl'. insert_on_conflict_id pk upd chk cur w xs = Inr (n, tbl'))
           = accepted pk ok clash tbl earlier xs"
proof (induction xs arbitrary: cur w earlier)
  case Nil
  then show ?case by simp
next
  case (Cons x xs)
  note tr = Cons.prems(2)
  show ?case
  proof (cases "find (\<lambda>r. pk r = pk x) cur")
    case None
    then have nc: "pk x \<notin> pk ` set cur" by (simp add: find_pk_image)
    with tracks_ids [OF tr] have nx: "pk x \<notin> pk ` set earlier" by blast
    from nc have all: "(\<exists>q \<in> set cur. clash q x) = (\<exists>q \<in> set cur. pk q \<noteq> pk x \<and> clash q x)"
      by (metis imageI)
    have chk_x: "(chk cur x = None)
                   = (ok x \<and> \<not> list_ex (\<lambda>d. clash d x) earlier
                      \<and> \<not> list_ex (\<lambda>r. pk r \<noteq> pk x \<and> pk r \<notin> pk ` set earlier \<and> clash r x) tbl)"
      using tracks_clash [OF tr nx] all by (simp add: chk list_ex_iff)
    show ?thesis
    proof (cases "chk cur x")
      case (Some e)
      with None chk_x show ?thesis by auto
    next
      case chk_ok: None
      have w': "set (pk x # w) = pk ` set (x # earlier)" using Cons.prems(1) by simp
      from Cons.IH [OF w' tracks_insert [OF tr nc]] None chk_ok chk_x nx show ?thesis by simp
    qed
  next
    case (Some old)
    then have old: "old \<in> set cur" "pk old = pk x" by (auto simp: find_Some_iff)
    show ?thesis
    proof (cases "pk x \<in> set w")
      case True
      with Some Cons.prems(1) show ?thesis by simp
    next
      case False
      with Cons.prems(1) have nx: "pk x \<notin> pk ` set earlier" by simp
      have chk_x: "(chk (filter (\<lambda>r. pk r \<noteq> pk x) cur) (upd old x) = None)
                   = (ok x \<and> \<not> list_ex (\<lambda>d. clash d x) earlier
                      \<and> \<not> list_ex (\<lambda>r. pk r \<noteq> pk x \<and> pk r \<notin> pk ` set earlier \<and> clash r x) tbl)"
        using tracks_clash [OF tr nx]
        by (simp add: chk ok_upd clash_upd list_ex_iff) blast
      show ?thesis
      proof (cases "chk (filter (\<lambda>r. pk r \<noteq> pk x) cur) (upd old x)")
        case (Some e)
        with \<open>find (\<lambda>r. pk r = pk x) cur = Some old\<close> False chk_x show ?thesis by auto
      next
        case chk_ok: None
        have w': "set (pk x # w) = pk ` set (x # earlier)" using Cons.prems(1) by simp
        have "tracks pk clash tbl (x # earlier) (map (\<lambda>r. if pk r = pk x then upd old x else r) cur)"
          using tr old nx by (rule tracks_update) (simp_all add: pk_upd upd_clash old(2))
        from Cons.IH [OF w' this] \<open>find (\<lambda>r. pk r = pk x) cur = Some old\<close> False chk_ok chk_x nx
        show ?thesis by simp
      qed
    qed
  qed
qed

lemma key_stored: "(f r \<in> f ` set others) = (\<exists>q \<in> set others. f q = f r)"
proof
  assume "f r \<in> f ` set others"
  then obtain q where "q \<in> set others" "f r = f q" by (rule imageE)
  then have "q \<in> set others \<and> f q = f r" by simp
  then show "\<exists>q \<in> set others. f q = f r" by blast
next
  assume "\<exists>q \<in> set others. f q = f r"
  then obtain q where "q \<in> set others" "f q = f r" by (rule bexE)
  then show "f r \<in> f ` set others" by (metis imageI)
qed

lemma users_constraints_shape:
  "(users_constraints others r = None)
     = (users_check r \<and> \<not> list_ex (\<lambda>q. email_clash q r) others)"
  by (simp add: users_constraints_def users_check_def email_clash_def list_ex_iff key_stored)

lemma articles_constraints_shape:
  "(articles_constraints users others r = None)
     = (articles_check users r \<and> \<not> list_ex (\<lambda>q. slug_clash q r) others)"
  by (simp add: articles_constraints_def articles_check_def slug_clash_def list_ex_iff key_stored)

lemma comments_constraints_shape:
  "(comments_constraints users articles others r = None)
     = (comments_check users articles r \<and> \<not> list_ex (\<lambda>q. no_clash q r) others)"
  by (auto simp: comments_constraints_def comments_check_def no_clash_def list_ex_iff)

lemma UserRepository_CreateBatch_accepted:
  "(\<exists>n tbl'. UserRepository_CreateBatch now fresh tbl users = Inr (n, tbl'))
     = accepted u_ID users_check email_clash tbl [] (fill_user_defaults now fresh users)"
proof (cases "users = []")
  case True
  then show ?thesis by (simp add: UserRepository_CreateBatch_def)
next
  case False
  have "(\<exists>n tbl'. insert_on_conflict_id u_ID (users_on_conflict now) users_constraints tbl []
                     (fill_user_defaults now fresh users) = Inr (n, tbl'))
          = accepted u_ID users_check email_clash tbl [] (fill_user_defaults now fresh users)"
    by (rule insert_on_conflict_id_accepted [OF users_constraints_shape])
       (simp_all add: users_on_conflict_def users_check_def email_clash_def tracks_start)
  with False show ?thesis by (simp add: UserRepository_CreateBatch_def)
qed

lemma ArticleRepository_CreateBatch_accepted:
  "(\<exists>n tbl'. ArticleRepository_CreateBatch now fresh users tbl articles = Inr (n, tbl'))
     = accepted a_ID (articles_check users) slug_clash tbl []
         (fill_article_defaults now fresh articles)"
proof (cases "articles = []")
  case True
  then show ?thesis by (simp add: ArticleRepository_CreateBatch_def)
next
  case False
  have "(\<exists>n tbl'. insert_on_conflict_id a_ID (articles_on_conflict now) (articles_constraints users)
                     tbl [] (fill_article_defaults now fresh articles) = Inr (n, tbl'))
          = accepted a_ID (articles_check users) slug_clash tbl []
              (fill_article_defaults now fresh articles)"
    by (rule insert_on_conflict_id_accepted [OF articles_constraints_shape])
       (simp_all add: articles_on_conflict_def articles_check_def slug_clash_def tracks_start)
  with False show ?thesis by (simp add: ArticleRepository_CreateBatch_def)
qed

lemma CommentRepository_CreateBatch_accepted:
  "(\<exists>n tbl'. CommentRepository_CreateBatch now fresh users articles tbl comments = Inr (n, tbl'))
     = accepted c_ID (comments_check users articles) no_clash tbl []
         (fill_comment_defaults now fresh comments)"
proof (cases "comments = []")
  case True
  then show ?thesis by (simp add: CommentRepository_CreateBatch_def)
next
  case False
  have "(\<exists>n tbl'. insert_on_conflict_id c_ID (comments_on_conflict now)
                     (comments_constraints users articles) tbl []
                     (fill_comment_defaults now fresh comments) = Inr (n, tbl'))
          = accepted c_ID (comments_check users articles) no_clash tbl []
              (fill_comment_defaults now fresh comments)"
    by (rule insert_on_conflict_id_accepted [OF comments_constraints_shape])
       (simp_all add: comments_on_conflict_def comments_check_def no_clash_def tracks_start)
  with False show ?thesis by (simp add: CommentRepository_CreateBatch_def)
qed

text \<open>
  C1 (as found in the code).  Promotion uses an upsert keyed on the primary key: the batch
  write for users, for articles and for comments resolves conflicts on the \<open>id\<close> column
  only (\<open>ON CONFLICT (id)\<close>).  The statement succeeds exactly when the batch is accepted:
  taking the proposed rows in order, the id of a row is not the id of an earlier row of
  the batch, the row meets the \<open>CHECK\<close> and foreign-key constraints of its table, and its
  unique column (the email of a user, the slug of an article) is held neither by an
  earlier row of the batch nor by a stored row whose id is neither its own nor that of an
  earlier row; otherwise the statement fails as a whole.  When it succeeds it has written
  every proposed row; a proposed row whose id is stored overwrites the stored row's other
  columns (for users email, name, role, active; for articles slug, title, body,
  author_id, tags, published_at, status; for comments article_id, user_id, body) with
  the incoming values, \<open>id\<close> and \<open>created_at\<close> keep their stored values and \<open>updated_at\<close>
  becomes the time of the statement; a proposed row whose id is not stored is inserted;
  rows stored under other ids are left as they were.
\<close>

theorem C1_upsert_keyed_on_id:
  "((\<exists>n tbl'. UserRepository_CreateBatch now fresh utbl users = Inr (n, tbl'))
      = accepted u_ID users_check email_clash utbl [] (fill_user_defaults now fresh users))
   \<and> (UserRepository_CreateBatch now fresh utbl users = Inr (n1, utbl') \<longrightarrow>
      n1 = length users \<and>
      upsert_keyed_on_id u_ID (users_on_conflict now) utbl (fill_user_defaults now fresh users) utbl')
   \<and> ((\<exists>n tbl'. ArticleRepository_CreateBatch now fresh utbl atbl articles = Inr (n, tbl'))
      = accepted a_ID (articles_check utbl) slug_clash atbl []
          (fill_article_defaults now fresh articles))
   \<and> (ArticleRepository_CreateBatch now fresh utbl atbl articles = Inr (n2, atbl') \<longrightarrow>
      n2 = length articles \<and>
      upsert_keyed_on_id a_ID (articles_on_conflict now) atbl
        (fill_article_defaults now fresh articles) atbl')
   \<and> ((\<exists>n tbl'. CommentRepository_CreateBatch now fresh utbl atbl ctbl comments = Inr (n, tbl'))
      = accepted c_ID (comments_check utbl atbl) no_clash ctbl []
          (fill_comment_defaults now fresh comments))
   \<and> (CommentRepository_CreateBatch now fresh utbl atbl ctbl comments = Inr (n3, ctbl') \<longrightarrow>
      n3 = length comments \<and>
      upsert_keyed_on_id c_ID (comments_on_conflict now) ctbl
        (fill_comment_defaults now fresh comments) ctbl')
   \<and> users_on_conflict now u u' =
        \<lparr>u_ID = u_ID u, u_Email = u_Email u', u_Name = u_Name u', u_Role = u_Role u',
         u_Active = u_Active u', u_CreatedAt = u_CreatedAt u, u_UpdatedAt = now\<rparr>
   \<and> articles_on_conflict now a a' =
        \<lparr>a_ID = a_ID a, a_Slug = a_Slug a', a_Title = a_Title a', a_Body = a_Body a',
         a_AuthorID = a_AuthorID a', a_Tags = a_Tags a', a_PublishedAt = a_PublishedAt a',
         a_Status = a_Status a', a_CreatedAt = a_CreatedAt a, a_UpdatedAt = now\<rparr>
   \<and> comments_on_conflict now c c' =
        \<lparr>c_ID = c_ID c, c_ArticleID = c_ArticleID c', c_UserID = c_UserID c', c_Body = c_Body c',
         c_CreatedAt = c_CreatedAt c, c_UpdatedAt = now\<rparr>"
proof -
  note ua = UserRepository_CreateBatch_accepted [of now fresh utbl users]
  note aa = ArticleRepository_CreateBatch_accepted [of now fresh utbl atbl articles]
  note ca = CommentRepository_CreateBatch_accepted [of now fresh utbl atbl ctbl comments]
  note uu = UserRepository_CreateBatch_upsert [of now fresh utbl users n1 utbl']
  note au = ArticleRepository_CreateBatch_upsert [of now fresh utbl atbl articles n2 atbl']
  note cu = CommentRepository_CreateBatch_upsert [of now fresh utbl atbl ctbl comments n3 ctbl']
  have eqs: "users_on_conflict now u u' =
        \<lparr>u_ID = u_ID u, u_Email = u_Email u', u_Name = u_Name u', u_Role = u_Role u',
         u_Active = u_Active u', u_CreatedAt = u_CreatedAt u, u_UpdatedAt = now\<rparr>"
    "articles_on_conflict now a a' =
        \<lparr>a_ID = a_ID a, a_Slug = a_Slug a', a_Title = a_Title a', a_Body = a_Body a',
         a_AuthorID = a_AuthorID a', a_Tags = a_Tags a', a_PublishedAt = a_PublishedAt a',
         a_Status = a_Status a', a_CreatedAt = a_CreatedAt a, a_UpdatedAt = now\<rparr>"
    "comments_on_conflict now c c' =
        \<lparr>c_ID = c_ID c, c_ArticleID = c_ArticleID c', c_UserID = c_UserID c', c_Body = c_Body c',
         c_CreatedAt = c_CreatedAt c, c_UpdatedAt = now\<rparr>"
    by (simp_all add: users_on_conflict_def articles_on_conflict_def comments_on_conflict_def)
  from ua aa ca uu au cu eqs show ?thesis by (intro conjI impI) blast+
qed

text \<open>
  Three accepted batches, each with a row whose id is stored, and a batch that is not
  accepted: the row brings the id of \<open>alice\<close> and the email of \<open>carol\<close>.
\<close>

theorem C1_upsert_keyed_on_id_witness:
  "accepted u_ID users_check email_clash [alice] [] (fill_user_defaults new_year [bob_id] [alice_again, bob]) \<and>
   UserRepository_CreateBatch new_year [bob_id] [alice] [alice_again, bob] = Inr (2, users_after) \<and>
   upsert_keyed_on_id u_ID (users_on_conflict new_year) [alice]
     (fill_user_defaults new_year [bob_id] [alice_again, bob]) users_after \<and>
   accepted a_ID (articles_check [alice]) slug_clash [old_news] []
     (fill_article_defaults new_year [bob_id] [old_news_again]) \<and>
   ArticleRepository_CreateBatch new_year [bob_id] [alice] [old_news] [old_news_again]
     = Inr (1, articles_after) \<and>
   upsert_keyed_on_id a_ID (articles_on_conflict new_year) [old_news]
     (fill_article_defaults new_year [bob_id] [old_news_again]) articles_after \<and>
   accepted c_ID (comments_check [alice] [old_news]) no_clash [first_comment] []
     (fill_comment_defaults new_year [bob_id] [first_comment_again]) \<and>
   CommentRepository_CreateBatch new_year [bob_id] [alice] [old_news] [first_comment]
     [first_comment_again] = Inr (1, comments_after) \<and>
   upsert_keyed_on_id c_ID (comments_on_conflict new_year) [first_comment]
     (fill_comment_defaults new_year [bob_id] [first_comment_again]) comments_after \<and>
   \<not> accepted u_ID users_check email_clash [alice, carol] [] (fill_user_defaults new_year [] [alice_as_carol]) \<and>
   UserRepository_CreateBatch new_year [] [alice, carol] [alice_as_carol] = Inl UniqueViolation"
proof -
  have u: "UserRepository_CreateBatch new_year [bob_id] [alice] [alice_again, bob]
             = Inr (2, users_after)" by code_simp
  have a: "ArticleRepository_CreateBatch new_year [bob_id] [alice] [old_news] [old_news_again]
             = Inr (1, articles_after)" by code_simp
  have c: "CommentRepository_CreateBatch new_year [bob_id] [alice] [old_news] [first_comment]
             [first_comment_again] = Inr (1, comments_after)" by code_simp
  have f: "UserRepository_CreateBatch new_year [] [alice, carol] [alice_as_carol]
             = Inl UniqueViolation" by code_simp
  note inst = C1_upsert_keyed_on_id [where now = new_year and fresh = "[bob_id]" and utbl = "[alice]"
      and users = "[alice_again, bob]" and ?n1.0 = 2 and utbl' = users_after
      and atbl = "[old_news]" and articles = "[old_news_again]" and ?n2.0 = 1
      and atbl' = articles_after and ctbl = "[first_comment]"
      and comments = "[first_comment_again]" and ?n3.0 = 1 and ctbl' = comments_after]
  note inst2 = C1_upsert_keyed_on_id [where now = new_year and fresh = "[]"
      and utbl = "[alice, carol]" and users = "[alice_as_carol]"]
  have u1: "accepted u_ID users_check email_clash [alice] []
              (fill_user_defaults new_year [bob_id] [alice_again, bob])"
    using inst u by blast
  have u2: "upsert_keyed_on_id u_ID (users_on_conflict new_year) [alice]
     (fill_user_defaults new_year [bob_id] [alice_again, bob]) users_after"
    using inst u by blast
  have a1: "accepted a_ID (articles_check [alice]) slug_clash [old_news] []
     (fill_article_defaults new_year [bob_id] [old_news_again])"
    using inst a by blast
  have a2: "upsert_keyed_on_id a_ID (articles_on_conflict new_year) [old_news]
     (fill_article_defaults new_year [bob_id] [old_news_again]) articles_after"
    using inst a by blast
  have c1: "accepted c_ID (comments_check [alice] [old_news]) no_clash [first_comment] []
     (fill_comment_defaults new_year [bob_id] [first_comment_again])"
    using inst c by blast
  have c2: "upsert_keyed_on_id c_ID (comments_on_conflict new_year) [first_comment]
     (fill_comment_defaults new_year [bob_id] [first_comment_again]) comments_after"
    using inst c by blast
  have f1: "\<not> accepted u_ID users_check email_clash [alice, carol] []
              (fill_user_defaults new_year [] [alice_as_carol])"
    using inst2 f by auto
  from u1 u u2 a1 a a2 c1 c c2 f1 f show ?thesis by (intro conjI)
qed

text \<open>
  The email of a user and the slug of an article are not conflict targets.  A proposed user
  with a stored id and an email that is not stored is not inserted: the stored row is
  updated.  A staged user with the id of one stored user and the email of another passes
  the duplicate checks and is converted, and the batch write does not take the conflict
  path on the email: it updates the row of the id and the unique constraint fails the
  batch.  An article with a stored id and the slug of another stored article fares alike.
\<close>

theorem C1_upsert_counterexample:
  "u_Email alice_again \<noteq> u_Email alice \<and> u_ID alice_again = u_ID alice \<and>
   UserRepository_CreateBatch new_year [] [alice] [alice_again]
     = Inr (1, [alice\<lparr>u_Email := ''alice@new.example.com'', u_Name := ''Alice N.'',
                      u_Role := ''reader'', u_Active := False, u_UpdatedAt := new_year\<rparr>]) \<and>
   users_to_promote (map lower_byte) [alice, carol] job_a 1000 [staged_alice_as_carol]
     = [[staged_alice_as_carol]] \<and>
   convertStagingToUser stdlib_ascii new_year bob_id staged_alice_as_carol = Some alice_as_carol \<and>
   u_Email alice_as_carol = u_Email carol \<and> u_ID alice_as_carol = u_ID alice \<and>
   UserRepository_CreateBatch new_year [] [alice, carol] [alice_as_carol] = Inl UniqueViolation \<and>
   articles_to_promote (map lower_byte) [alice] [old_news, other_news] job_a 1000
     [staged_old_as_other] = [[staged_old_as_other]] \<and>
   convertStagingToArticle stdlib_ascii new_year bob_id staged_old_as_other = Some old_as_other \<and>
   a_Slug old_as_other = a_Slug other_news \<and> a_ID old_as_other = a_ID old_news \<and>
   ArticleRepository_CreateBatch new_year [] [alice] [old_news, other_news] [old_as_other]
     = Inl UniqueViolation"
  by code_simp

subsection \<open>Deduplication within a file: the first occurrence wins (C4)\<close>

lemma concat_chunks: "concat (chunks m xs) = xs"
proof (induction m xs rule: chunks.induct)
  case (1 m xs)
  show ?case
  proof (cases "xs = []")
    case True
    then show ?thesis by (subst chunks.simps) simp
  next
    case False
    with 1 show ?thesis by (subst chunks.simps) simp
  qed
qed

lemma set_GetValidStaging:
  "set (concat (GetValidStaging jobID batchSize tbl))
     = {s \<in> set tbl. st_JobID s = jobID \<and> IsValid s \<and> \<not> IsDuplicate s \<and> \<not> Processed s}"
  by (auto simp: GetValidStaging_def concat_chunks select_valid_def)

lemma snd_sql_update: "snd (sql_update hit upd tbl) = map (\<lambda>r. if hit r then upd r else r) tbl"
  by (simp add: sql_update_def)

lemma find_map_distinct:
  assumes "distinct (map k tbl)" and "r \<in> set tbl" and "\<And>x. k (f x) = k x"
  shows "find (\<lambda>x. k x = k r) (map f tbl) = Some (f r)"
  using assms by (induction tbl) (auto simp: image_iff)

lemma sql_eq_Some: "sql_eq a (Some k) = (a = Some k)"
  by (cases a) (auto simp: sql_eq_def)

lemma exists_earlier_iff:
  assumes "key r \<noteq> None" and "st_JobID r = jobID"
  shows "exists_earlier key tbl r
           = (\<not> list_all (\<lambda>x. st_JobID x = jobID \<and> key x = key r \<longrightarrow> StagingID r \<le> StagingID x) tbl)"
proof -
  from assms(1) obtain k where k: "key r = Some k" by auto
  show ?thesis
    using assms(2)
    by (auto simp: exists_earlier_def list_ex_iff list_all_iff k sql_eq_Some not_le)
qed

lemma distinct_map_eq:
  "StagingID y = StagingID r \<Longrightarrow> distinct (map StagingID tbl) \<Longrightarrow> y \<in> set tbl \<Longrightarrow> r \<in> set tbl \<Longrightarrow> y = r"
  by (meson distinct_map inj_onD)

lemma first_occurrence_generic:
  fixes tbl :: "('z StagingRow_scheme) list"
  assumes dist: "distinct (map StagingID tbl)"
    and hit: "\<And>s1. key s1 \<noteq> None \<Longrightarrow> hit s1 = (st_JobID s1 = jobID \<and> exists_earlier key tbl s1)"
    and tbl': "tbl' = map (\<lambda>r. if hit r then set_duplicate code r else r) tbl"
    and final: "final = map g tbl'"
    and g_id: "\<And>x. StagingID (g x) = StagingID x"
    and g_dup: "\<And>x. IsDuplicate x \<Longrightarrow> IsDuplicate (g x)"
    and prom: "set promoted \<subseteq> StagingID ` {s \<in> set final. \<not> IsDuplicate s}"
  shows "first_occurrence_wins key jobID tbl tbl' promoted"
  unfolding first_occurrence_wins_def
proof (intro ballI impI)
  fix r assume r: "r \<in> set tbl" and jk: "st_JobID r = jobID \<and> key r \<noteq> None"
  let ?f = "\<lambda>r. if hit r then set_duplicate code r else r"
  let ?first = "list_all (\<lambda>x. st_JobID x = jobID \<and> key x = key r \<longrightarrow> StagingID r \<le> StagingID x) tbl"
  have fid: "\<And>x. StagingID (?f x) = StagingID x" by (simp add: set_duplicate_def)
  have found: "find (\<lambda>x. StagingID x = StagingID r) tbl' = Some (?f r)"
    unfolding tbl' using dist r fid by (rule find_map_distinct [where k = StagingID and f = ?f])
  from jk have "hit r = (st_JobID r = jobID \<and> exists_earlier key tbl r)" by (intro hit) simp
  also from jk have "\<dots> = exists_earlier key tbl r" by simp
  also from jk have "\<dots> = (\<not> ?first)" by (intro exists_earlier_iff) simp_all
  finally have hr: "hit r = (\<not> ?first)" .
  show "if ?first then find (\<lambda>x. StagingID x = StagingID r) tbl' = Some r
        else (case find (\<lambda>x. StagingID x = StagingID r) tbl' of
                None \<Rightarrow> False | Some r' \<Rightarrow> IsDuplicate r' \<and> \<not> IsValid r')
             \<and> StagingID r \<notin> set promoted"
  proof (cases ?first)
    case True
    with hr found show ?thesis by simp
  next
    case False
    with hr have h: "hit r" by simp
    have np: "StagingID r \<notin> set promoted"
    proof
      assume "StagingID r \<in> set promoted"
      with prom obtain x where x: "x \<in> set final" "\<not> IsDuplicate x" "StagingID x = StagingID r"
        by auto
      from x(1) have "x \<in> (\<lambda>y. g (?f y)) ` set tbl"
        unfolding final tbl' by (simp only: set_map image_image)
      then obtain y where y: "y \<in> set tbl" "x = g (?f y)" by (rule imageE)
      with x(3) have "StagingID y = StagingID r" by (simp add: g_id fid)
      then have "y = r" using dist y(1) r by (rule distinct_map_eq)
      with y(2) h have "x = g (set_duplicate code r)" by simp
      then have "IsDuplicate x" by (simp add: g_dup set_duplicate_def)
      with x(2) show False by simp
    qed
    from False h found np show ?thesis by (simp add: set_duplicate_def)
  qed
qed


lemma promoted_not_duplicate:
  "set (map StagingID (concat (GetValidStaging jobID batchSize final)))
     \<subseteq> StagingID ` {s \<in> set final. \<not> IsDuplicate s}"
proof -
  have "set (map StagingID (concat (GetValidStaging jobID batchSize final)))
          = StagingID ` set (concat (GetValidStaging jobID batchSize final))"
    by (simp only: set_map)
  also have "\<dots> \<subseteq> StagingID ` {s \<in> set final. \<not> IsDuplicate s}"
    unfolding set_GetValidStaging by (rule image_mono) blast
  finally show ?thesis .
qed

lemma users_first_occurrence:
  assumes "distinct (map StagingID tbl)"
  shows "first_occurrence_wins (lower_email LOWER) jobID tbl
           (snd (MarkDuplicateUsersInBatch LOWER jobID tbl))
           (map StagingID (concat (users_to_promote LOWER users jobID batchSize tbl)))"
proof (rule first_occurrence_generic [OF assms])
  show "snd (MarkDuplicateUsersInBatch LOWER jobID tbl)
          = map (\<lambda>r. if st_JobID r = jobID \<and> exists_earlier (lower_email LOWER) tbl r
                       then set_duplicate ''DUPLICATE_EMAIL'' r else r) tbl"
    by (simp add: MarkDuplicateUsersInBatch_def snd_sql_update)
  show "snd (MarkDuplicateUsersAgainstExisting LOWER users jobID
               (snd (MarkDuplicateUsersInBatch LOWER jobID tbl)))
          = map (\<lambda>s. if st_JobID s = jobID \<and> IsValid s
                            \<and> list_ex (\<lambda>u. sql_eq (Some (LOWER (u_Email u))) (lower_email LOWER s)) users
                            \<and> (st_ID s = None \<or> \<not> list_ex (\<lambda>u2. sql_eq (Some (u_ID u2)) (st_ID s)) users)
                      then set_duplicate ''DUPLICATE_EMAIL'' s else s)
              (snd (MarkDuplicateUsersInBatch LOWER jobID tbl))"
    by (simp add: MarkDuplicateUsersAgainstExisting_def snd_sql_update)
  show "set (map StagingID (concat (users_to_promote LOWER users jobID batchSize tbl)))
          \<subseteq> StagingID ` {s \<in> set (snd (MarkDuplicateUsersAgainstExisting LOWER users jobID
                                   (snd (MarkDuplicateUsersInBatch LOWER jobID tbl)))). \<not> IsDuplicate s}"
    unfolding users_to_promote_def by (rule promoted_not_duplicate)
qed (simp_all add: set_duplicate_def)


lemma articles_first_occurrence:
  assumes "distinct (map StagingID tbl)"
  shows "first_occurrence_wins (lower_slug LOWER) jobID tbl
           (snd (MarkDuplicateArticlesInBatch LOWER jobID tbl))
           (map StagingID (concat (articles_to_promote LOWER users articles jobID batchSize tbl)))"
proof (rule first_occurrence_generic [OF assms])
  let ?g1 = "\<lambda>s. if st_JobID s = jobID \<and> IsValid s
                     \<and> list_ex (\<lambda>a. sql_eq (Some (LOWER (a_Slug a))) (lower_slug LOWER s)) articles
                     \<and> (st_ID s = None \<or> \<not> list_ex (\<lambda>a2. sql_eq (Some (a_ID a2)) (st_ID s)) articles)
                 then set_duplicate ''DUPLICATE_SLUG'' s else s"
  let ?g2 = "\<lambda>s. if st_JobID s = jobID \<and> IsValid s \<and> sa_AuthorID s \<noteq> None
                     \<and> \<not> list_ex (\<lambda>u. sql_eq (Some (u_ID u)) (sa_AuthorID s)) users
                 then s\<lparr>IsValid := False, st_ValidationError := Some ''INVALID_AUTHOR_FK''\<rparr> else s"
  show "snd (MarkDuplicateArticlesInBatch LOWER jobID tbl)
          = map (\<lambda>r. if st_JobID r = jobID \<and> exists_earlier (lower_slug LOWER) tbl r
                       then set_duplicate ''DUPLICATE_SLUG'' r else r) tbl"
    by (simp add: MarkDuplicateArticlesInBatch_def snd_sql_update)
  show "snd (MarkInvalidAuthorFKArticles users jobID
          (snd (MarkDuplicateArticlesAgainstExisting LOWER articles jobID
             (snd (MarkDuplicateArticlesInBatch LOWER jobID tbl)))))
          = map (\<lambda>s. ?g2 (?g1 s)) (snd (MarkDuplicateArticlesInBatch LOWER jobID tbl))"
    by (simp add: MarkInvalidAuthorFKArticles_def MarkDuplicateArticlesAgainstExisting_def
          snd_sql_update comp_def)
  show "set (map StagingID (concat (articles_to_promote LOWER users articles jobID batchSize tbl)))
          \<subseteq> StagingID ` {s \<in> set (snd (MarkInvalidAuthorFKArticles users jobID
                  (snd (MarkDuplicateArticlesAgainstExisting LOWER articles jobID
                     (snd (MarkDuplicateArticlesInBatch LOWER jobID tbl)))))). \<not> IsDuplicate s}"
    unfolding articles_to_promote_def by (rule promoted_not_duplicate)
qed (simp_all add: set_duplicate_def)

lemma comments_first_occurrence:
  assumes "distinct (map StagingID tbl)"
  shows "first_occurrence_wins st_ID jobID tbl
           (snd (MarkDuplicateCommentsInBatch jobID tbl))
           (map StagingID (concat (comments_to_promote users articles jobID batchSize tbl)))"
proof (rule first_occurrence_generic [OF assms])
  let ?na = "\<lambda>s. sc_ArticleID s \<noteq> None
                  \<and> \<not> list_ex (\<lambda>a. sql_eq (Some (a_ID a)) (sc_ArticleID s)) articles"
  let ?nu = "\<lambda>s. sc_UserID s \<noteq> None
                  \<and> \<not> list_ex (\<lambda>u. sql_eq (Some (u_ID u)) (sc_UserID s)) users"
  let ?g = "\<lambda>s. if st_JobID s = jobID \<and> IsValid s \<and> (?na s \<or> ?nu s)
                then s\<lparr>IsValid := False,
                       st_ValidationError :=
                         Some (if ?na s then ''INVALID_ARTICLE_FK''
                               else if ?nu s then ''INVALID_USER_FK'' else ''INVALID_FK'')\<rparr>
                else s"
  show "snd (MarkDuplicateCommentsInBatch jobID tbl)
          = map (\<lambda>r. if st_JobID r = jobID \<and> st_ID r \<noteq> None \<and> exists_earlier st_ID tbl r
                       then set_duplicate ''DUPLICATE_ID'' r else r) tbl"
    by (simp add: MarkDuplicateCommentsInBatch_def snd_sql_update)
  show "snd (MarkInvalidFKComments users articles jobID (snd (MarkDuplicateCommentsInBatch jobID tbl)))
          = map ?g (snd (MarkDuplicateCommentsInBatch jobID tbl))"
    by (simp add: MarkInvalidFKComments_def Let_def snd_sql_update cong: if_cong)
  show "set (map StagingID (concat (comments_to_promote users articles jobID batchSize tbl)))
          \<subseteq> StagingID ` {s \<in> set (snd (MarkInvalidFKComments users articles jobID
                  (snd (MarkDuplicateCommentsInBatch jobID tbl)))). \<not> IsDuplicate s}"
    unfolding comments_to_promote_def by (rule promoted_not_duplicate)
qed (simp_all add: set_duplicate_def)


text \<open>
  C4.  For every group of staged rows within one job that share the same deduplication
  key (lower-cased email for users, lower-cased slug for articles, non-null id for
  comments), exactly the row with the minimum staging id is left unmarked by the
  in-batch statement, and every other row of the group is marked \<open>is_duplicate = true\<close>
  and \<open>is_valid = false\<close> and is not among the rows that pass 3 promotes.  Staging ids are
  distinct, as the primary key of the staging relation guarantees.
\<close>

theorem C4_first_occurrence_wins:
  "(distinct (map StagingID utbl) \<longrightarrow>
      first_occurrence_wins (lower_email LOWER) jobID utbl
        (snd (MarkDuplicateUsersInBatch LOWER jobID utbl))
        (map StagingID (concat (users_to_promote LOWER users jobID batchSize utbl))))
   \<and> (distinct (map StagingID atbl) \<longrightarrow>
      first_occurrence_wins (lower_slug LOWER) jobID atbl
        (snd (MarkDuplicateArticlesInBatch LOWER jobID atbl))
        (map StagingID (concat (articles_to_promote LOWER users articles jobID batchSize atbl))))
   \<and> (distinct (map StagingID ctbl) \<longrightarrow>
      first_occurrence_wins st_ID jobID ctbl
        (snd (MarkDuplicateCommentsInBatch jobID ctbl))
        (map StagingID (concat (comments_to_promote users articles jobID batchSize ctbl))))"
  using users_first_occurrence articles_first_occurrence comments_first_occurrence by blast

theorem C4_first_occurrence_wins_witness:
  "distinct (map StagingID example_staging_users) \<and>
   first_occurrence_wins (lower_email (map lower_byte)) job_a example_staging_users
     (snd (MarkDuplicateUsersInBatch (map lower_byte) job_a example_staging_users))
     (map StagingID (concat (users_to_promote (map lower_byte) [alice] job_a 1000
        example_staging_users))) \<and>
   map (\<lambda>r. (StagingID r, IsDuplicate r, IsValid r))
     (snd (MarkDuplicateUsersInBatch (map lower_byte) job_a example_staging_users))
     = [(1, False, True), (2, True, False), (3, False, True), (4, True, False), (5, False, True)] \<and>
   map StagingID (concat (users_to_promote (map lower_byte) [alice] job_a 1000
     example_staging_users)) = [1, 3] \<and>
   distinct (map StagingID example_staging_articles) \<and>
   first_occurrence_wins (lower_slug (map lower_byte)) job_a example_staging_articles
     (snd (MarkDuplicateArticlesInBatch (map lower_byte) job_a example_staging_articles))
     (map StagingID (concat (articles_to_promote (map lower_byte) [alice] [old_news] job_a 1000
        example_staging_articles))) \<and>
   map StagingID (concat (articles_to_promote (map lower_byte) [alice] [old_news] job_a 1000
     example_staging_articles)) = [1, 3] \<and>
   distinct (map StagingID example_staging_comments) \<and>
   first_occurrence_wins st_ID job_a example_staging_comments
     (snd (MarkDuplicateCommentsInBatch job_a example_staging_comments))
     (map StagingID (concat (comments_to_promote [alice] [old_news] job_a 1000
        example_staging_comments))) \<and>
   map StagingID (concat (comments_to_promote [alice] [old_news] job_a 1000
     example_staging_comments)) = [1, 3, 4]"
proof -
  have du: "distinct (map StagingID example_staging_users)" by code_simp
  have da: "distinct (map StagingID example_staging_articles)" by code_simp
  have dc: "distinct (map StagingID example_staging_comments)" by code_simp
  have mu: "map (\<lambda>r. (StagingID r, IsDuplicate r, IsValid r))
     (snd (MarkDuplicateUsersInBatch (map lower_byte) job_a example_staging_users))
     = [(1, False, True), (2, True, False), (3, False, True), (4, True, False), (5, False, True)]"
    by code_simp
  have pu: "map StagingID (concat (users_to_promote (map lower_byte) [alice] job_a 1000
     example_staging_users)) = [1, 3]" by code_simp
  have pa: "map StagingID (concat (articles_to_promote (map lower_byte) [alice] [old_news] job_a 1000
     example_staging_articles)) = [1, 3]" by code_simp
  have pc: "map StagingID (concat (comments_to_promote [alice] [old_news] job_a 1000
     example_staging_comments)) = [1, 3, 4]" by code_simp
  note inst = C4_first_occurrence_wins [where utbl = example_staging_users
      and atbl = example_staging_articles and ctbl = example_staging_comments
      and LOWER = "map lower_byte" and jobID = job_a and users = "[alice]" and articles = "[old_news]"
      and batchSize = 1000]
  from inst du have fu: "first_occurrence_wins (lower_email (map lower_byte)) job_a example_staging_users
     (snd (MarkDuplicateUsersInBatch (map lower_byte) job_a example_staging_users))
     (map StagingID (concat (users_to_promote (map lower_byte) [alice] job_a 1000
        example_staging_users)))" by blast
  from inst da have fa: "first_occurrence_wins (lower_slug (map lower_byte)) job_a example_staging_articles
     (snd (MarkDuplicateArticlesInBatch (map lower_byte) job_a example_staging_articles))
     (map StagingID (concat (articles_to_promote (map lower_byte) [alice] [old_news] job_a 1000
        example_staging_articles)))" by blast
  from inst dc have fc: "first_occurrence_wins st_ID job_a example_staging_comments
     (snd (MarkDuplicateCommentsInBatch job_a example_staging_comments))
     (map StagingID (concat (comments_to_promote [alice] [old_news] job_a 1000
        example_staging_comments)))" by blast
  from du fu mu pu da fa pa dc fc pc show ?thesis by (intro conjI)
qed

subsection \<open>The slug of a validated article (C6)\<close>

lemma lang_Seq_iff: "w \<in> lang (Seq r s) = (\<exists>u v. w = u @ v \<and> u \<in> lang r \<and> v \<in> lang s)"
  by (auto simp: image_iff)

lemma lang_SeqI: "u \<in> lang r \<Longrightarrow> v \<in> lang s \<Longrightarrow> u @ v \<in> lang (Seq r s)"
  unfolding lang_Seq_iff by blast

lemma nullable_lang: "nullable r \<Longrightarrow> [] \<in> lang r"
proof (induction r)
  case (Seq r s)
  then have "[] @ [] \<in> lang (Seq r s)" by (intro lang_SeqI) simp_all
  then show ?case by simp
qed (auto intro: iter.intros)

lemma deriv_lang: "w \<in> lang (deriv c r) \<Longrightarrow> c # w \<in> lang r"
proof (induction r arbitrary: w)
  case (Seq r s)
  show ?case
  proof (cases "nullable r")
    case True
    with Seq.prems have "w \<in> lang (Seq (deriv c r) s) \<or> w \<in> lang (deriv c s)" by simp
    then show ?thesis
    proof
      assume "w \<in> lang (Seq (deriv c r) s)"
      then obtain u v where "w = u @ v" "u \<in> lang (deriv c r)" "v \<in> lang s"
        unfolding lang_Seq_iff by blast
      with Seq.IH(1) [of u] have "(c # u) @ v \<in> lang (Seq r s)" by (intro lang_SeqI)
      with \<open>w = u @ v\<close> show ?thesis by simp
    next
      assume "w \<in> lang (deriv c s)"
      with Seq.IH(2) have "c # w \<in> lang s" by simp
      with nullable_lang [OF True] have "[] @ (c # w) \<in> lang (Seq r s)" by (intro lang_SeqI)
      then show ?thesis by simp
    qed
  next
    case False
    with Seq.prems have "w \<in> lang (Seq (deriv c r) s)" by simp
    then obtain u v where "w = u @ v" "u \<in> lang (deriv c r)" "v \<in> lang s"
      unfolding lang_Seq_iff by blast
    with Seq.IH(1) [of u] have "(c # u) @ v \<in> lang (Seq r s)" by (intro lang_SeqI)
    with \<open>w = u @ v\<close> show ?thesis by simp
  qed
next
  case (Star r)
  then have "w \<in> lang (Seq (deriv c r) (Star r))" by simp
  then obtain u v where "w = u @ v" "u \<in> lang (deriv c r)" "v \<in> iter (lang r)"
    unfolding lang_Seq_iff by auto
  with Star.IH [of u] have "(c # u) @ v \<in> iter (lang r)" by (intro iter_app)
  with \<open>w = u @ v\<close> show ?case by simp
qed (auto split: if_splits)

lemma MatchString_lang: "MatchString r s \<Longrightarrow> s \<in> lang r"
  by (induction s arbitrary: r) (auto simp: nullable_lang deriv_lang)

lemma hyphen_not_slug_char: "\<not> slug_char CHR ''-''"
  by (simp add: slug_char_def lower_alnum_def)

lemma iter_class: "w \<in> iter (lang (Class cs)) \<Longrightarrow> set w \<subseteq> set cs"
  by (induction rule: iter.induct) auto

lemma lang_Plus_Class:
  assumes "u \<in> lang (Plus (Class cs))"
  shows "u \<noteq> [] \<and> set u \<subseteq> set cs"
proof -
  from assms obtain a t where "u = a @ t" "a \<in> lang (Class cs)" "t \<in> iter (lang (Class cs))"
    unfolding Plus_def lang_Seq_iff by auto
  then show ?thesis using iter_class [of t cs] by auto
qed

lemma no_hyphens_in_word: "\<forall>c \<in> set u. c \<noteq> CHR ''-'' \<Longrightarrow> \<not> Contains_hyphens u"
  by (induction u rule: Contains_hyphens.induct) auto

lemma Contains_hyphens_append:
  assumes "\<not> Contains_hyphens u" and "\<not> Contains_hyphens v"
    and "u = [] \<or> v = [] \<or> last u \<noteq> CHR ''-'' \<or> hd v \<noteq> CHR ''-''"
  shows "\<not> Contains_hyphens (u @ v)"
  using assms
proof (induction u rule: Contains_hyphens.induct)
  case (1 a b cs)
  then show ?case by auto
qed (cases v; simp)+

text \<open>The tail of a slug: blocks of one hyphen followed by a non-empty word.\<close>

lemma slug_tail:
  assumes "v \<in> iter (lang (Seq (Class ''-'') (Plus (Class lower_alnum))))"
  shows "(\<forall>c \<in> set v. slug_char c \<or> c = CHR ''-'') \<and> \<not> Contains_hyphens v
         \<and> (v = [] \<or> last v \<noteq> CHR ''-'')"
  using assms
proof (induction rule: iter.induct)
  case iter_nil
  then show ?case by simp
next
  case (iter_app u v)
  from iter_app.hyps(1) obtain p where u: "u = CHR ''-'' # p" and p: "p \<in> lang (Plus (Class lower_alnum))"
    unfolding lang_Seq_iff by auto
  from lang_Plus_Class [OF p] have pne: "p \<noteq> []" and pcs: "\<forall>c \<in> set p. slug_char c"
    by (auto simp: slug_char_def)
  from pcs have pnh: "\<forall>c \<in> set p. c \<noteq> CHR ''-''" using hyphen_not_slug_char by auto
  from pne pnh have lastp: "last p \<noteq> CHR ''-''" by (meson last_in_set)
  from pne pnh have hdp: "hd p \<noteq> CHR ''-''" by (meson hd_in_set)
  have nu: "\<not> Contains_hyphens u"
    using pne hdp no_hyphens_in_word [OF pnh] unfolding u by (cases p) auto
  from pne lastp have lastu: "last u \<noteq> CHR ''-''" by (simp add: u)
  have "\<not> Contains_hyphens (u @ v)"
    using nu iter_app.IH lastu by (intro Contains_hyphens_append) auto
  moreover have "\<forall>c \<in> set (u @ v). slug_char c \<or> c = CHR ''-''"
    using pcs iter_app.IH by (auto simp: u)
  moreover have "u @ v = [] \<or> last (u @ v) \<noteq> CHR ''-''"
    using iter_app.IH lastu by (cases "v = []") simp_all
  ultimately show ?case by blast
qed

lemma slugRegex_shape:
  assumes "MatchString slugRegex s"
  shows "(\<forall>c \<in> set s. slug_char c \<or> c = CHR ''-'') \<and> \<not> Contains_hyphens s"
proof -
  from MatchString_lang [OF assms] obtain u v where s: "s = u @ v"
    and u: "u \<in> lang (Plus (Class lower_alnum))"
    and v: "v \<in> iter (lang (Seq (Class ''-'') (Plus (Class lower_alnum))))"
    unfolding slugRegex_def lang_Seq_iff by auto
  from lang_Plus_Class [OF u] have une: "u \<noteq> []" and ucs: "\<forall>c \<in> set u. slug_char c"
    by (auto simp: slug_char_def)
  from ucs have unh: "\<forall>c \<in> set u. c \<noteq> CHR ''-''" using hyphen_not_slug_char by auto
  from une unh have "last u \<noteq> CHR ''-''" by (meson last_in_set)
  then have "\<not> Contains_hyphens (u @ v)"
    using no_hyphens_in_word [OF unh] slug_tail [OF v] by (intro Contains_hyphens_append) auto
  with ucs slug_tail [OF v] show ?thesis by (auto simp: s)
qed


lemma kebab_char:
  assumes "slug_char c \<or> c = CHR ''-''"
  shows "byte c < RuneSelf \<and> lower_byte c = c \<and> \<not> asciiSpace c \<and> c \<noteq> CHR '' ''"
  using assms
  by (auto simp: slug_char_def lower_alnum_def byte_def RuneSelf_def lower_byte_def is_upper_def
        asciiSpace_def)

lemma ToLower_kebab:
  assumes "\<forall>c \<in> set s. slug_char c \<or> c = CHR ''-''"
  shows "ToLower L s = s"
proof -
  from assms have "list_all (\<lambda>c. byte c < RuneSelf) s" using kebab_char by (auto simp: list_all_iff)
  moreover from assms have "map lower_byte s = s" using kebab_char by (induction s) auto
  ultimately show ?thesis by (simp add: ToLower_def)
qed

lemma trim_right_kebab:
  assumes "s \<noteq> []" and "slug_char (hd s) \<or> hd s = CHR ''-''"
  shows "trim_right L s = rev s"
  using assms kebab_char [of "hd s"] by (cases s) (auto simp: not_le)

lemma TrimSpace_kebab:
  assumes "\<forall>c \<in> set s. slug_char c \<or> c = CHR ''-''"
  shows "TrimSpace L s = s"
proof (cases s)
  case Nil
  then show ?thesis by (simp add: TrimSpace_def)
next
  case (Cons c cs)
  with assms have c: "slug_char c \<or> c = CHR ''-''" by simp
  from Cons assms have l: "slug_char (last s) \<or> last s = CHR ''-''" by (meson last_in_set list.discI)
  from Cons have sne: "s \<noteq> []" by simp
  then have "hd (rev s) = last s" by (simp add: hd_rev)
  with l have "slug_char (hd (rev s)) \<or> hd (rev s) = CHR ''-''" by simp
  with sne have "trim_right L (rev s) = rev (rev s)" by (intro trim_right_kebab) simp_all
  with Cons kebab_char [OF c] show ?thesis by (simp add: TrimSpace_def not_le)
qed

lemma ReplaceAll_space_hyphen_kebab:
  assumes "\<forall>c \<in> set s. slug_char c \<or> c = CHR ''-''"
  shows "ReplaceAll_space_hyphen s = s"
  using assms kebab_char unfolding ReplaceAll_space_hyphen_def by (induction s) auto

lemma collapse_runs_absent: "a \<notin> set s \<Longrightarrow> collapse_runs a b s = s"
  by (induction a b s rule: collapse_runs.induct) auto

lemma collapse_runs_hyphens: "\<not> Contains_hyphens s \<Longrightarrow> collapse_runs CHR ''-'' CHR ''-'' s = s"
  by (induction "CHR ''-''" "CHR ''-''" s rule: collapse_runs.induct) auto

lemma collapse_hyphens_id: "\<not> Contains_hyphens s \<Longrightarrow> collapse_hyphens s = s"
  by (subst collapse_hyphens.simps) simp

lemma validated_slug:
  assumes "ValidateArticleImport L row article = []"
  shows "ai_Slug article \<noteq> [] \<and> MatchString slugRegex (ai_Slug article)"
proof -
  have "ai_Slug article = [] \<or> \<not> IsValidSlug (ai_Slug article)
          \<Longrightarrow> ValidateArticleImport L row article \<noteq> []"
    by (auto simp: ValidateArticleImport_def Let_def)
  with assms have a: "ai_Slug article \<noteq> []" and b: "IsValidSlug (ai_Slug article)" by blast+
  from a b show ?thesis by (simp add: IsValidSlug_def)
qed


text \<open>
  C6.  For every article record that passes validation, the slug written into its staging
  row is the input slug lower-cased, with every run of spaces collapsed to a single \<open>-\<close>
  and every run of \<open>-\<close> collapsed to a single \<open>-\<close>; the key that deduplication compares is
  \<open>LOWER\<close> of that value.  A validated slug matches \<open>^[a-z0-9]+(-[a-z0-9]+)*$\<close>, so the
  normal form is the input slug itself, and \<open>ConvertToArticle\<close> computes the same value.
\<close>

theorem C6_validated_slug_is_normalized:
  assumes "ValidateArticleImport L row article = []"
  shows "sa_Slug (fst (processArticle_row L jobID row (Some article)))
           = Some (spec_normalized_slug L (ai_Slug article))
         \<and> lower_slug LOWER (fst (processArticle_row L jobID row (Some article)))
           = Some (LOWER (spec_normalized_slug L (ai_Slug article)))
         \<and> spec_normalized_slug L (ai_Slug article) = ai_Slug article
         \<and> ConvertToArticle_slug L article = spec_normalized_slug L (ai_Slug article)"
proof -
  from validated_slug [OF assms] have ne: "ai_Slug article \<noteq> []"
    and m: "MatchString slugRegex (ai_Slug article)" by simp_all
  from slugRegex_shape [OF m] have cs: "\<forall>c \<in> set (ai_Slug article). slug_char c \<or> c = CHR ''-''"
    and nh: "\<not> Contains_hyphens (ai_Slug article)" by simp_all
  from cs have nsp: "CHR '' '' \<notin> set (ai_Slug article)" using kebab_char by blast
  have staged: "ReplaceAll_space_hyphen (ToLower L (TrimSpace L (ai_Slug article))) = ai_Slug article"
    by (simp add: TrimSpace_kebab [OF cs] ToLower_kebab [OF cs] ReplaceAll_space_hyphen_kebab [OF cs])
  have spec: "spec_normalized_slug L (ai_Slug article) = ai_Slug article"
    by (simp add: spec_normalized_slug_def ToLower_kebab [OF cs] collapse_runs_absent [OF nsp]
          collapse_runs_hyphens [OF nh])
  have conv: "ConvertToArticle_slug L article = ai_Slug article"
    by (simp add: ConvertToArticle_slug_def staged collapse_hyphens_id [OF nh])
  have row: "sa_Slug (fst (processArticle_row L jobID row (Some article))) = Some (ai_Slug article)"
    using ne by (simp add: processArticle_row_def Let_def staged)
  from row spec conv show ?thesis by (simp add: lower_slug_def)
qed

theorem C6_validated_slug_is_normalized_witness:
  "ValidateArticleImport stdlib_ascii 2 example_article = [] \<and>
   sa_Slug (fst (processArticle_row stdlib_ascii job_a 2 (Some example_article)))
     = Some (spec_normalized_slug stdlib_ascii (ai_Slug example_article)) \<and>
   spec_normalized_slug stdlib_ascii (ai_Slug example_article) = ''old-news'' \<and>
   lower_slug (map lower_byte) (fst (processArticle_row stdlib_ascii job_a 2 (Some example_article)))
     = Some (map lower_byte (spec_normalized_slug stdlib_ascii (ai_Slug example_article))) \<and>
   ConvertToArticle_slug stdlib_ascii example_article = ''old-news''"
proof -
  have h: "ValidateArticleImport stdlib_ascii 2 example_article = []" by code_simp
  have s: "ai_Slug example_article = ''old-news''" by (simp add: example_article_def)
  note inst = C6_validated_slug_is_normalized [OF h, of job_a "map lower_byte"]
  from inst have a: "sa_Slug (fst (processArticle_row stdlib_ascii job_a 2 (Some example_article)))
     = Some (spec_normalized_slug stdlib_ascii (ai_Slug example_article))" by blast
  from inst have "spec_normalized_slug stdlib_ascii (ai_Slug example_article) = ai_Slug example_article"
    by blast
  with s have b: "spec_normalized_slug stdlib_ascii (ai_Slug example_article) = ''old-news''"
    by (simp only:)
  from inst have c: "lower_slug (map lower_byte)
       (fst (processArticle_row stdlib_ascii job_a 2 (Some example_article)))
     = Some (map lower_byte (spec_normalized_slug stdlib_ascii (ai_Slug example_article)))" by blast
  from inst have "ConvertToArticle_slug stdlib_ascii example_article
     = spec_normalized_slug stdlib_ascii (ai_Slug example_article)" by blast
  with b have d: "ConvertToArticle_slug stdlib_ascii example_article = ''old-news''" by (simp only:)
  from h a b c d show ?thesis by (intro conjI)
qed

subsection \<open>The counters of a job that has ended (C3)\<close>


lemma rows_written_update_job [simp]: "rows_written (update_job i f s) = rows_written s"
  by (simp add: update_job_def)






lemma rows_written_job_ops [simp]:
  "rows_written (UpdateProgress i a b c s) = rows_written s"
  "rows_written (SetTotalRecords i n s) = rows_written s"
  "rows_written (SetStarted now i s) = rows_written s"
  "rows_written (SetCompleted now i a b s) = rows_written s"
  "rows_written (SetFailed now i e s) = rows_written s"
  by (simp_all add: UpdateProgress_def SetTotalRecords_def SetStarted_def SetCompleted_def
        SetFailed_def)















































end
